theory Spec2Isabelle
  imports Complex_Main "HOL-Library.Word"
begin

section \<open>Machine values and failures\<close>

text \<open>
  The interface is C++ compiled for the usual 64-bit targets: \<open>int\<close> is a 32-bit
  two's-complement integer, read with \<open>sint\<close>, and \<open>size_t\<close> has 64 bits. A
  \<open>double\<close> is a value of the type variable \<open>'d\<close>: the functions below only store,
  copy, add, multiply and compare doubles, so they are written for any type with \<open>+\<close>,
  \<open>*\<close> and \<open><\<close> and no law is assumed of these operations (IEEE arithmetic is one
  such type, \<open>real\<close> another).
\<close>

type_synonym c_int = "32 word"

text \<open>
  \<open>fatal_error\<close> prints its message and ends the process; the failure keeps the
  process-wide state reached at that point. An access the C++ standard leaves undefined
  (an index outside a vector, an overflowing \<open>int\<close>) is the second kind of failure;
  an operation that can fail in this way only returns an \<open>option\<close>, with \<open>None\<close>
  for the undefined case.
\<close>

datatype 's failure = Fatal string 's | Undefined

definition fatal_error :: "string \<Rightarrow> 's \<Rightarrow> 's failure + 'a" where
  "fatal_error msg s = Inl (Fatal msg s)"

text \<open>
  \<open>v[i]\<close> on a \<open>std::vector\<close> with an \<open>int\<close> index: the index is converted to
  \<open>size_t\<close>, so a negative one is as far out of range as one past the end.
\<close>

definition vec_at :: "'a list \<Rightarrow> c_int \<Rightarrow> 'a option" where
  "vec_at xs i =
     (if 0 \<le> sint i \<and> nat (sint i) < length xs then Some (xs ! nat (sint i))
      else None)"

text \<open>\<open>x - 1\<close> on an \<open>int\<close>: undefined at \<open>INT_MIN\<close>.\<close>

definition int_minus_1 :: "c_int \<Rightarrow> c_int option" where
  "int_minus_1 x = (if sint x = - (2 ^ 31) then None else Some (x - 1))"

text \<open>\<open>n - 1\<close> on the \<open>size_t\<close> a vector's \<open>size()\<close> returns: it wraps around at zero.\<close>

definition size_t_minus_1 :: "nat \<Rightarrow> nat" where
  "size_t_minus_1 n = (if n = 0 then 2 ^ 64 - 1 else n - 1)"

section \<open>Data\<close>

text \<open>
  Class \<open>Mgxs\<close> is declared in \<open>mgxs.h\<close>; the members the interface reads are
  \<open>name\<close> and \<open>fissionable\<close>. The remaining fields record what its constructors were
  given: the temperatures, and for a macroscopic table the constituents (each
  \<open>Mgxs*\<close> into \<open>nuclides_MG\<close> is the position it points at) with their atom
  densities.
\<close>

record 'd Mgxs =
  name :: string
  kTs :: "'d list"
  fissionable :: bool
  nuclides :: "nat list"
  atom_densities :: "'d list"

text \<open>
  The members \<open>nuclide_\<close> and \<open>fissionable_\<close> of class \<open>Material\<close>, and
  \<open>type_\<close> and \<open>materials_\<close> of \<open>Library\<close> below: a name cannot end in an
  underscore here, so the fields carry a prefix instead.
\<close>

record Material =
  mat_nuclide :: "c_int list"
  mat_fissionable :: bool

text \<open>
  The enumeration \<open>Library::Type\<close> is declared in another header;
  mgxs_interface.cpp uses one of its values.
\<close>

datatype Library_Type = neutron

record Library =
  lib_type :: Library_Type
  lib_materials :: "string list"

text \<open>
  What an open library file holds: the attributes \<open>filetype\<close>, \<open>version\<close>,
  \<open>energy_groups\<close> and \<open>group structure\<close> (the last two are looked for with
  \<open>ensure_exists\<close>, so they may be absent) and the top-level groups in file order,
  one per data set.
\<close>

record hdf5_group =
  grp_fissionable :: bool

record 'd hdf5_file =
  filetype :: string
  version :: "c_int \<times> c_int"
  energy_groups :: "c_int option"
  group_structure :: "'d list option"
  groups :: "(string \<times> hdf5_group) list"

definition object_exists :: "'d hdf5_file \<Rightarrow> string \<Rightarrow> bool" where
  "object_exists f nm = (map_of (groups f) nm \<noteq> None)"

definition group_names :: "'d hdf5_file \<Rightarrow> string list" where
  "group_names f = map fst (groups f)"

text \<open>
  The process-wide variables of namespaces \<open>data\<close> and \<open>model\<close>. \<open>nuclide_map\<close>
  is an unordered map from names to indices: its entries are listed in the order a
  traversal meets them. Each \<open>Material*\<close> of \<open>model::materials\<close> owns its object, so
  the vector is the list of the objects.
\<close>

record 'd globals =
  nuclides_MG :: "'d Mgxs list"
  macro_xs :: "'d Mgxs list"
  energy_bins :: "'d list"
  energy_bin_avg :: "'d list"
  rev_energy_bins :: "'d list"
  num_energy_groups :: c_int
  libraries :: "Library list"
  nuclide_map :: "(string \<times> c_int) list"
  materials :: "Material list"

section \<open>Reading the header of the library\<close>

text \<open>
  Modelled from the spec: \<open>ensure_exists\<close> is defined in hdf5_interface.cpp, outside
  mgxs_interface.cpp. Loading fails fatally when the group-count or the
  group-structure attribute is absent; the wording of the message is not the
  program's.
\<close>

definition ensure_exists :: "'a option \<Rightarrow> string \<Rightarrow> 's \<Rightarrow> 's failure + 'a" where
  "ensure_exists attr nm s =
     (case attr of None \<Rightarrow> fatal_error (''Object '' @ nm @ '' does not exist'') s
      | Some v \<Rightarrow> Inr v)"

text \<open>
  The loop \<open>for (int i = 0; i < energy_bins.size() - 1; ++i)\<close>. The bound is computed
  in \<open>size_t\<close>, so on an empty vector it is \<open>2^64 - 1\<close> and the first iteration reads
  outside the vector. \<open>half\<close> is the double \<open>0.5\<close>.
\<close>

function energy_bin_avg_loop ::
  "'d::{plus,times} \<Rightarrow> 'd list \<Rightarrow> nat \<Rightarrow> 'd list \<Rightarrow> 'd list option" where
  "energy_bin_avg_loop half bins i avg =
     (if i < size_t_minus_1 (length bins) then
        (if i + 1 < length bins \<and> i < 2 ^ 31 - 1
         then energy_bin_avg_loop half bins (i + 1)
                (avg @ [half * (bins ! i + bins ! (i + 1))])
         else None)
      else Some avg)"
  by pat_completeness auto
termination
  by (relation "measure (\<lambda>(half, bins, i, avg). length bins - i)") auto

declare energy_bin_avg_loop.simps [simp del]

definition read_mg_cross_sections_header_c ::
  "'d::{plus,times} \<Rightarrow> 'd hdf5_file \<Rightarrow> 'd globals \<Rightarrow> 'd globals failure + 'd globals" where
  "read_mg_cross_sections_header_c half f s =
     (case ensure_exists (energy_groups f) ''energy_groups'' s of
        Inl e \<Rightarrow> Inl e
      | Inr n \<Rightarrow>
     let s1 = s\<lparr>num_energy_groups := n\<rparr> in
     (case ensure_exists (group_structure f) ''group structure'' s1 of
        Inl e \<Rightarrow> Inl e
      | Inr bs \<Rightarrow>
     let s2 = s1\<lparr>rev_energy_bins := bs\<rparr>;
         s3 = s2\<lparr>energy_bins := energy_bins s2 @ rev (rev_energy_bins s2)\<rparr> in
     (case energy_bin_avg_loop half (energy_bins s3) 0 (energy_bin_avg s3) of
        None \<Rightarrow> Inl Undefined
      | Some avg \<Rightarrow>
     let s4 = s3\<lparr>energy_bin_avg := avg\<rparr>;
         names = group_names f in
     if names = [] then
       fatal_error ''At least one MGXS data set must be present in mgxs library file!'' s4
     else
       Inr (s4\<lparr>libraries := libraries s4 @
              map (\<lambda>nm. \<lparr>lib_type = neutron, lib_materials = [nm]\<rparr>) names\<rparr>))))"

section \<open>Loading the cross-section tables\<close>

text \<open>
  Modelled from the spec: the constructor \<open>Mgxs(xs_grp, temperature)\<close> is defined in
  mgxs.cpp, outside mgxs_interface.cpp. It builds the table of one nuclide from the
  nuclide's group of the library: the table carries the name of the data set, the
  temperatures asked for, and the group's fissionable flag.
\<close>

definition Mgxs_from_hdf5 :: "string \<Rightarrow> hdf5_group \<Rightarrow> 'd list \<Rightarrow> 'd Mgxs" where
  "Mgxs_from_hdf5 nm xs_grp temperature =
     \<lparr>name = nm, kTs = temperature, fissionable = grp_fissionable xs_grp,
      nuclides = [], atom_densities = []\<rparr>"

definition open_group :: "'d hdf5_file \<Rightarrow> string \<Rightarrow> hdf5_group option" where
  "open_group f nm = map_of (groups f) nm"

text \<open>\<open>write_message\<close> only prints; it is left out.\<close>

definition add_mgxs_c ::
  "'d hdf5_file \<Rightarrow> string \<Rightarrow> 'd list \<Rightarrow> 'd globals \<Rightarrow> 'd globals failure + 'd globals" where
  "add_mgxs_c f nm temperature s =
     (if object_exists f nm then
        (case open_group f nm of
           None \<Rightarrow> Inl Undefined
         | Some xs_grp \<Rightarrow>
             Inr (s\<lparr>nuclides_MG := nuclides_MG s @ [Mgxs_from_hdf5 nm xs_grp temperature]\<rparr>))
      else
        fatal_error (''Data for '' @ nm @ '' does not exist in provided MGXS Library'') s)"

text \<open>
  The vector \<open>nuclide_names\<close>: \<open>nuclide_names[kv.second] = kv.first\<close> for every
  entry of \<open>nuclide_map\<close>, on a vector of \<open>nuclide_map.size()\<close> empty strings.
\<close>

fun nuclide_names_loop :: "(string \<times> c_int) list \<Rightarrow> string list \<Rightarrow> string list option" where
  "nuclide_names_loop [] nuclide_names = Some nuclide_names"
| "nuclide_names_loop (kv # kvs) nuclide_names =
     (if 0 \<le> sint (snd kv) \<and> nat (sint (snd kv)) < length nuclide_names
      then nuclide_names_loop kvs (nuclide_names[nat (sint (snd kv)) := fst kv])
      else None)"

definition build_nuclide_names :: "'d globals \<Rightarrow> string list option" where
  "build_nuclide_names s =
     nuclide_names_loop (nuclide_map s) (replicate (length (nuclide_map s)) [])"

text \<open>\<open>mat->fissionable_ = true\<close> for the material at position \<open>k\<close> of \<open>model::materials\<close>.\<close>

definition set_fissionable :: "nat \<Rightarrow> 'd globals \<Rightarrow> 'd globals" where
  "set_fissionable k s =
     s\<lparr>materials := (materials s)[k := (materials s ! k)\<lparr>mat_fissionable := True\<rparr>]\<rparr>"

text \<open>
  The inner loop \<open>for (int i_nuc : mat->nuclide_)\<close> for the material at position
  \<open>k\<close>, on the seen-set \<open>already_read\<close> and the globals.
\<close>

fun nuclide_loop ::
  "'d hdf5_file \<Rightarrow> string list \<Rightarrow> 'd list list \<Rightarrow> nat \<Rightarrow> c_int list \<Rightarrow>
     string set \<times> 'd globals \<Rightarrow> 'd globals failure + string set \<times> 'd globals" where
  "nuclide_loop f nuclide_names nuc_temps k [] (already_read, s) = Inr (already_read, s)"
| "nuclide_loop f nuclide_names nuc_temps k (i_nuc # rest) (already_read, s) =
     (case vec_at nuclide_names i_nuc of
        None \<Rightarrow> Inl Undefined
      | Some nm \<Rightarrow>
     (case (if nm \<notin> already_read then
              (case vec_at nuc_temps i_nuc of
                 None \<Rightarrow> Inl Undefined
               | Some temperature \<Rightarrow>
                   (case add_mgxs_c f nm temperature s of
                      Inl e \<Rightarrow> Inl e
                    | Inr s1 \<Rightarrow> Inr (insert nm already_read, s1)))
            else Inr (already_read, s)) of
        Inl e \<Rightarrow> Inl e
      | Inr (already_read1, s1) \<Rightarrow>
     (case vec_at (nuclides_MG s1) i_nuc of
        None \<Rightarrow> Inl Undefined
      | Some t \<Rightarrow>
          nuclide_loop f nuclide_names nuc_temps k rest
            (already_read1, if fissionable t then set_fissionable k s1 else s1))))"

text \<open>The outer loop \<open>for (const auto& mat : model::materials)\<close>, over the positions.\<close>

fun material_loop ::
  "'d hdf5_file \<Rightarrow> string list \<Rightarrow> 'd list list \<Rightarrow> nat list \<Rightarrow>
     string set \<times> 'd globals \<Rightarrow> 'd globals failure + string set \<times> 'd globals" where
  "material_loop f nuclide_names nuc_temps [] st = Inr st"
| "material_loop f nuclide_names nuc_temps (k # ks) (already_read, s) =
     (case nuclide_loop f nuclide_names nuc_temps k (mat_nuclide (materials s ! k))
             (already_read, s) of
        Inl e \<Rightarrow> Inl e
      | Inr st1 \<Rightarrow> material_loop f nuclide_names nuc_temps ks st1)"

text \<open>
  \<open>read_mgxs\<close>. What is defined elsewhere comes in as arguments: the path
  \<open>settings::path_cross_sections\<close>, the file found there (\<open>None\<close> when
  \<open>file_exists\<close> is false), the vector \<open>nuc_temps\<close> as \<open>get_temperatures\<close> leaves
  it, and the constant \<open>VERSION_MGXS_LIBRARY\<close>.
\<close>

definition read_mgxs ::
  "string \<Rightarrow> 'd hdf5_file option \<Rightarrow> 'd list list \<Rightarrow> c_int \<times> c_int \<Rightarrow> 'd globals \<Rightarrow>
     'd globals failure + 'd globals" where
  "read_mgxs path_cross_sections file nuc_temps VERSION_MGXS_LIBRARY s =
     (case file of
        None \<Rightarrow>
          fatal_error (''Cross sections HDF5 file '' @ [CHR 0x27] @ path_cross_sections @
            [CHR 0x27] @ '' does not exist.'') s
      | Some f \<Rightarrow>
     if filetype f \<noteq> ''mgxs'' then
       fatal_error ''Provided MGXS Library is not a MGXS Library file.'' s
     else if version f \<noteq> VERSION_MGXS_LIBRARY then
       fatal_error
         ''MGXS Library file version does not match current version supported by OpenMC.'' s
     else
     (case build_nuclide_names s of
        None \<Rightarrow> Inl Undefined
      | Some nuclide_names \<Rightarrow>
     (case material_loop f nuclide_names nuc_temps [0..<length (materials s)] ({}, s) of
        Inl e \<Rightarrow> Inl e
      | Inr (already_read, s') \<Rightarrow> Inr s')))"

text \<open>
  Modelled from the spec: the caller that loads a library is outside
  mgxs_interface.cpp. The loader builds the energy group grid and the catalog from
  the open file and then instantiates the tables of the nuclides of the materials:
  it reads the header and then calls \<open>read_mgxs\<close>.
\<close>

definition load_library ::
  "'d::{plus,times} \<Rightarrow> string \<Rightarrow> 'd hdf5_file \<Rightarrow> 'd list list \<Rightarrow> c_int \<times> c_int \<Rightarrow> 'd globals \<Rightarrow>
     'd globals failure + 'd globals" where
  "load_library half path_cross_sections f nuc_temps VERSION_MGXS_LIBRARY s =
     (case read_mg_cross_sections_header_c half f s of
        Inl e \<Rightarrow> Inl e
      | Inr s1 \<Rightarrow> read_mgxs path_cross_sections (Some f) nuc_temps VERSION_MGXS_LIBRARY s1)"

section \<open>Building the macroscopic tables\<close>

text \<open>
  Modelled from the spec: the constructors \<open>Mgxs(name, temperature, micros,
  atom_densities)\<close> and \<open>Mgxs()\<close> are defined in mgxs.cpp and mgxs.h, outside
  mgxs_interface.cpp. A macroscopic table holds the material's label, its
  temperatures, the references to its constituents with their densities, and is
  fissionable when a constituent is. The blank table has no content.
\<close>

definition Mgxs_macro ::
  "string \<Rightarrow> 'd list \<Rightarrow> nat list \<Rightarrow> 'd list \<Rightarrow> 'd Mgxs list \<Rightarrow> 'd Mgxs" where
  "Mgxs_macro mat_name temperature mgxs_ptr atom_densities_vec store =
     \<lparr>name = mat_name, kTs = temperature,
      fissionable = list_ex (\<lambda>p. fissionable (store ! p)) mgxs_ptr,
      nuclides = mgxs_ptr, atom_densities = atom_densities_vec\<rparr>"

definition Mgxs_blank :: "'d Mgxs" where
  "Mgxs_blank = \<lparr>name = [], kTs = [], fissionable = False, nuclides = [], atom_densities = []\<rparr>"

text \<open>
  The first \<open>n\<close> elements of a C array, as \<open>std::vector(p, p + n)\<close> and the loop
  over \<open>i_nuclides\<close> read them: undefined when \<open>n\<close> is negative or beyond the array.
\<close>

definition array_prefix :: "'a list \<Rightarrow> c_int \<Rightarrow> 'a list option" where
  "array_prefix xs n =
     (if 0 \<le> sint n \<and> nat (sint n) \<le> length xs then Some (take (nat (sint n)) xs) else None)"

text \<open>\<open>mgxs_ptr[n] = &data::nuclides_MG[i_nuclides[n] - 1]\<close>: a pointer is the position.\<close>

fun mgxs_ptr_loop :: "'a list \<Rightarrow> c_int list \<Rightarrow> nat list option" where
  "mgxs_ptr_loop store [] = Some []"
| "mgxs_ptr_loop store (i # rest) =
     (case int_minus_1 i of
        None \<Rightarrow> None
      | Some j \<Rightarrow>
          if 0 \<le> sint j \<and> nat (sint j) < length store then
            (case mgxs_ptr_loop store rest of
               None \<Rightarrow> None
             | Some ps \<Rightarrow> Some (nat (sint j) # ps))
          else None)"

definition create_macro_xs_c ::
  "string \<Rightarrow> c_int \<Rightarrow> c_int list \<Rightarrow> c_int \<Rightarrow> 'd list \<Rightarrow> 'd list \<Rightarrow> 'd \<Rightarrow> c_int \<Rightarrow>
     'd globals \<Rightarrow> 'd globals failure + 'd globals" where
  "create_macro_xs_c mat_name n_nuclides i_nuclides n_temps temps atom_densities' tolerance
       method s =
     (if 0 < sint n_temps then
        (case array_prefix temps n_temps of
           None \<Rightarrow> Inl Undefined
         | Some temperature \<Rightarrow>
        (case array_prefix atom_densities' n_nuclides of
           None \<Rightarrow> Inl Undefined
         | Some atom_densities_vec \<Rightarrow>
        (case array_prefix i_nuclides n_nuclides of
           None \<Rightarrow> Inl Undefined
         | Some idx \<Rightarrow>
        (case mgxs_ptr_loop (nuclides_MG s) idx of
           None \<Rightarrow> Inl Undefined
         | Some mgxs_ptr \<Rightarrow>
             Inr (s\<lparr>macro_xs := macro_xs s @
                    [Mgxs_macro mat_name temperature mgxs_ptr atom_densities_vec
                       (nuclides_MG s)]\<rparr>)))))
      else
        Inr (s\<lparr>macro_xs := macro_xs s @ [Mgxs_blank]\<rparr>))"

text \<open>
  Modelled from the spec: the loop that builds the macroscopic table of every material
  is outside mgxs_interface.cpp. It calls \<open>create_macro_xs_c\<close> once per material, in
  the order of the materials.
\<close>

record 'd macro_args =
  arg_mat_name :: string
  arg_n_nuclides :: c_int
  arg_i_nuclides :: "c_int list"
  arg_n_temps :: c_int
  arg_temps :: "'d list"
  arg_atom_densities :: "'d list"
  arg_tolerance :: 'd
  arg_method :: c_int

fun create_macro_xs_all ::
  "'d macro_args list \<Rightarrow> 'd globals \<Rightarrow> 'd globals failure + 'd globals" where
  "create_macro_xs_all [] s = Inr s"
| "create_macro_xs_all (a # as) s =
     (case create_macro_xs_c (arg_mat_name a) (arg_n_nuclides a) (arg_i_nuclides a)
             (arg_n_temps a) (arg_temps a) (arg_atom_densities a) (arg_tolerance a)
             (arg_method a) s of
        Inl e \<Rightarrow> Inl e
      | Inr s1 \<Rightarrow> create_macro_xs_all as s1)"

section \<open>Looking up a cross section\<close>

text \<open>
  The callers pass \<open>int*\<close> arguments, so the \<open>int\<close> objects live in a memory: a list
  of cells, an address being a position and \<open>None\<close> in a cell an indeterminate value.
  A pointer is \<open>None\<close> (the null pointer) or an address. Reading through a pointer
  that is not the address of a cell with a value is undefined.
\<close>

type_synonym int_mem = "c_int option list"
type_synonym int_ptr = "nat option"

definition deref :: "int_mem \<Rightarrow> nat \<Rightarrow> c_int option" where
  "deref mem a = (if a < length mem then mem ! a else None)"

text \<open>
  \<open>get_nuclide_xs_c\<close>. The locals \<open>gout_c\<close> and \<open>dg_c\<close> are two new cells at the
  end of the memory, gone when the function returns. \<open>Mgxs::get_xs\<close> is defined
  elsewhere and comes in as \<open>get_xs\<close>: it is given the table, the memory and the
  arguments of the call, and returns its value and the memory it leaves. \<open>mu\<close> is
  handed on as it is.
\<close>

definition get_nuclide_xs_c ::
  "('d Mgxs \<Rightarrow> c_int \<Rightarrow> c_int \<Rightarrow> int_ptr \<Rightarrow> 'm \<Rightarrow> int_ptr \<Rightarrow> int_mem \<Rightarrow> ('r \<times> int_mem) option) \<Rightarrow>
     'd globals \<Rightarrow> int_mem \<Rightarrow> c_int \<Rightarrow> c_int \<Rightarrow> c_int \<Rightarrow> int_ptr \<Rightarrow> 'm \<Rightarrow> int_ptr \<Rightarrow>
     ('r \<times> int_mem) option" where
  "get_nuclide_xs_c get_xs s mem index xstype gin gout mu dg =
     (let gout_c = length mem; dg_c = length mem + 1; mem0 = mem @ [None, None] in
      case (case gout of
              Some a \<Rightarrow>
                (case deref mem a of
                   None \<Rightarrow> None
                 | Some v \<Rightarrow>
                     (case int_minus_1 v of
                        None \<Rightarrow> None
                      | Some v1 \<Rightarrow> Some (mem0[gout_c := Some v1], Some gout_c)))
            | None \<Rightarrow> Some (mem0, gout)) of
        None \<Rightarrow> None
      | Some (mem1, gout_c_p) \<Rightarrow>
      (case (case dg of
              Some a \<Rightarrow>
                (case deref mem a of
                   None \<Rightarrow> None
                 | Some v \<Rightarrow>
                     (case int_minus_1 v of
                        None \<Rightarrow> None
                      | Some v1 \<Rightarrow> Some (mem1[dg_c := Some v1], Some dg_c)))
            | None \<Rightarrow> Some (mem1, dg)) of
        None \<Rightarrow> None
      | Some (mem2, dg_c_p) \<Rightarrow>
      (case int_minus_1 index of
        None \<Rightarrow> None
      | Some i \<Rightarrow>
      (case vec_at (nuclides_MG s) i of
        None \<Rightarrow> None
      | Some t \<Rightarrow>
      (case int_minus_1 gin of
        None \<Rightarrow> None
      | Some gin0 \<Rightarrow>
      (case get_xs t xstype gin0 gout_c_p mu dg_c_p mem2 of
        None \<Rightarrow> None
      | Some (r, mem3) \<Rightarrow> Some (r, take (length mem) mem3)))))))"

text \<open>\<open>get_macro_xs_c\<close>: the same code on \<open>data::macro_xs\<close>.\<close>

definition get_macro_xs_c ::
  "('d Mgxs \<Rightarrow> c_int \<Rightarrow> c_int \<Rightarrow> int_ptr \<Rightarrow> 'm \<Rightarrow> int_ptr \<Rightarrow> int_mem \<Rightarrow> ('r \<times> int_mem) option) \<Rightarrow>
     'd globals \<Rightarrow> int_mem \<Rightarrow> c_int \<Rightarrow> c_int \<Rightarrow> c_int \<Rightarrow> int_ptr \<Rightarrow> 'm \<Rightarrow> int_ptr \<Rightarrow>
     ('r \<times> int_mem) option" where
  "get_macro_xs_c get_xs s mem index xstype gin gout mu dg =
     (let gout_c = length mem; dg_c = length mem + 1; mem0 = mem @ [None, None] in
      case (case gout of
              Some a \<Rightarrow>
                (case deref mem a of
                   None \<Rightarrow> None
                 | Some v \<Rightarrow>
                     (case int_minus_1 v of
                        None \<Rightarrow> None
                      | Some v1 \<Rightarrow> Some (mem0[gout_c := Some v1], Some gout_c)))
            | None \<Rightarrow> Some (mem0, gout)) of
        None \<Rightarrow> None
      | Some (mem1, gout_c_p) \<Rightarrow>
      (case (case dg of
              Some a \<Rightarrow>
                (case deref mem a of
                   None \<Rightarrow> None
                 | Some v \<Rightarrow>
                     (case int_minus_1 v of
                        None \<Rightarrow> None
                      | Some v1 \<Rightarrow> Some (mem1[dg_c := Some v1], Some dg_c)))
            | None \<Rightarrow> Some (mem1, dg)) of
        None \<Rightarrow> None
      | Some (mem2, dg_c_p) \<Rightarrow>
      (case int_minus_1 index of
        None \<Rightarrow> None
      | Some i \<Rightarrow>
      (case vec_at (macro_xs s) i of
        None \<Rightarrow> None
      | Some t \<Rightarrow>
      (case int_minus_1 gin of
        None \<Rightarrow> None
      | Some gin0 \<Rightarrow>
      (case get_xs t xstype gin0 gout_c_p mu dg_c_p mem2 of
        None \<Rightarrow> None
      | Some (r, mem3) \<Rightarrow> Some (r, take (length mem) mem3)))))))"

text \<open>
  Modelled from the spec: \<open>Mgxs::get_xs\<close> is defined in mgxs.cpp, outside
  mgxs_interface.cpp. It is the lookup \<open>xsValue(type, groupIn, groupOut?,
  scatterCosine?, delayedGroup?)\<close> of a table: a value computed from the table and the
  arguments, the outgoing group and the delayed group being read through their
  pointers and absent when the pointer is null. It writes nothing.
\<close>

definition pointee :: "int_mem \<Rightarrow> int_ptr \<Rightarrow> int option option" where
  "pointee mem p =
     (case p of
        None \<Rightarrow> Some None
      | Some a \<Rightarrow> (case deref mem a of None \<Rightarrow> None | Some v \<Rightarrow> Some (Some (sint v))))"

definition Mgxs_get_xs ::
  "('d Mgxs \<Rightarrow> int \<Rightarrow> int \<Rightarrow> int option \<Rightarrow> 'm \<Rightarrow> int option \<Rightarrow> 'r) \<Rightarrow>
     'd Mgxs \<Rightarrow> c_int \<Rightarrow> c_int \<Rightarrow> int_ptr \<Rightarrow> 'm \<Rightarrow> int_ptr \<Rightarrow> int_mem \<Rightarrow> ('r \<times> int_mem) option" where
  "Mgxs_get_xs xsValue t xstype gin gout mu dg mem =
     (case pointee mem gout of
        None \<Rightarrow> None
      | Some groupOut \<Rightarrow>
     (case pointee mem dg of
        None \<Rightarrow> None
      | Some delayedGroup \<Rightarrow>
          Some (xsValue t (sint xstype) (sint gin) groupOut mu delayedGroup, mem)))"

text \<open>
  What a callee may do to the memory of its caller: it leaves the cells in place and
  writes, if at all, to the cells it was given a pointer to.
\<close>

definition writes_through_arguments ::
  "('t \<Rightarrow> c_int \<Rightarrow> c_int \<Rightarrow> int_ptr \<Rightarrow> 'm \<Rightarrow> int_ptr \<Rightarrow> int_mem \<Rightarrow> ('r \<times> int_mem) option) \<Rightarrow> bool" where
  "writes_through_arguments get_xs =
     (\<forall>t xstype gin gout mu dg mem r mem'.
        get_xs t xstype gin gout mu dg mem = Some (r, mem') \<longrightarrow>
        length mem' = length mem \<and>
        (\<forall>a. a < length mem \<longrightarrow> gout \<noteq> Some a \<longrightarrow> dg \<noteq> Some a \<longrightarrow> mem' ! a = mem ! a))"

section \<open>Notions used in the statements and proofs\<close>

text \<open>What the library says about a nuclide: the fissionable flag of its group.\<close>

definition nuclide_fissionable :: "'d hdf5_file \<Rightarrow> string \<Rightarrow> bool" where
  "nuclide_fissionable f nm =
     (case open_group f nm of None \<Rightarrow> False | Some xs_grp \<Rightarrow> grp_fissionable xs_grp)"

text \<open>
  Three facts about the state of the loading loops. \<open>store_in_order\<close>: the seen-set
  holds the names of the tables in the store, and the table at each position is the
  one built from the group of the name with that index. \<open>loaded_once\<close>: the tables
  appended to the store \<open>store0\<close> the loops started with have different names, the
  names in the seen-set, each with a group in the library. \<open>loader_frame\<close>: what the
  loops leave as it was.
\<close>

definition store_in_order :: "'d hdf5_file \<Rightarrow> string list \<Rightarrow> string set \<Rightarrow> 'd globals \<Rightarrow> bool" where
  "store_in_order f names ar s =
     (ar = set (map name (nuclides_MG s)) \<and>
      (\<forall>q < length (nuclides_MG s). \<exists>g tmp.
          open_group f (names ! q) = Some g \<and>
          nuclides_MG s ! q = Mgxs_from_hdf5 (names ! q) g tmp))"

definition loaded_once :: "'d hdf5_file \<Rightarrow> 'd Mgxs list \<Rightarrow> string set \<Rightarrow> 'd globals \<Rightarrow> bool" where
  "loaded_once f store0 ar s =
     (\<exists>new. nuclides_MG s = store0 @ new \<and> distinct (map name new) \<and>
        set (map name new) = ar \<and> (\<forall>t \<in> set new. object_exists f (name t)))"

definition loader_frame :: "'d globals \<Rightarrow> 'd globals \<Rightarrow> bool" where
  "loader_frame s0 s =
     (macro_xs s = macro_xs s0 \<and> energy_bins s = energy_bins s0 \<and>
      energy_bin_avg s = energy_bin_avg s0 \<and> rev_energy_bins s = rev_energy_bins s0 \<and>
      num_energy_groups s = num_energy_groups s0 \<and> libraries s = libraries s0 \<and>
      nuclide_map s = nuclide_map s0 \<and>
      map mat_nuclide (materials s) = map mat_nuclide (materials s0))"

definition store_prefix :: "'d hdf5_file \<Rightarrow> string list \<Rightarrow> string set \<Rightarrow> 'd globals \<Rightarrow> bool" where
  "store_prefix f names ar s =
     (store_in_order f names ar s \<and> length (nuclides_MG s) \<le> length names)"

text \<open>
  The loop reads \<open>nuclides_MG[i_nuc]\<close> for the table of nuclide \<open>i_nuc\<close>, and the
  store is filled in the order in which the names are first met. The two agree when
  the indices, read material by material, are numbered by first use: each is an
  index met before or the next new one, \<open>n\<close> being the number of indices met so far.
\<close>

fun numbered_by_first_use :: "nat \<Rightarrow> c_int list \<Rightarrow> bool" where
  "numbered_by_first_use n [] = True"
| "numbered_by_first_use n (i # rest) =
     (0 \<le> sint i \<and> nat (sint i) \<le> n \<and>
      numbered_by_first_use (if nat (sint i) = n then n + 1 else n) rest)"

text \<open>
  The macroscopic table that belongs to a call of \<open>create_macro_xs_c\<close>: the
  placeholder when the call gives no temperature, and otherwise a table with the
  label and the temperatures of the call.
\<close>

definition macro_entry_ok :: "'d macro_args \<Rightarrow> 'd Mgxs \<Rightarrow> bool" where
  "macro_entry_ok a t =
     (if 0 < sint (arg_n_temps a)
      then name t = arg_mat_name a \<and> kTs t = take (nat (sint (arg_n_temps a))) (arg_temps a)
      else t = Mgxs_blank)"

section \<open>Example data\<close>

text \<open>
  A small library with two groups and two data sets, and the globals of a model with
  two nuclides and two materials before anything is loaded; \<open>demo_header\<close> is what
  reading the header makes of them and \<open>demo_loaded\<close> what \<open>read_mgxs\<close> makes of
  that, with the temperatures \<open>demo_temps\<close>.
\<close>

definition demo_file :: "real hdf5_file" where
  "demo_file =
     \<lparr>filetype = ''mgxs'', version = (1, 0), energy_groups = Some 2,
      group_structure = Some [20, 1, 0],
      groups = [(''U235'', \<lparr>grp_fissionable = True\<rparr>), (''H1'', \<lparr>grp_fissionable = False\<rparr>)]\<rparr>"

definition demo_globals :: "real globals" where
  "demo_globals =
     \<lparr>nuclides_MG = [], macro_xs = [], energy_bins = [], energy_bin_avg = [],
      rev_energy_bins = [], num_energy_groups = 0, libraries = [],
      nuclide_map = [(''U235'', 1), (''H1'', 0)],
      materials = [\<lparr>mat_nuclide = [0], mat_fissionable = False\<rparr>,
                   \<lparr>mat_nuclide = [1, 0], mat_fissionable = False\<rparr>]\<rparr>"

definition demo_header :: "real globals" where
  "demo_header =
     demo_globals\<lparr>energy_bins := [0, 1, 20], energy_bin_avg := [1 / 2, 21 / 2],
       rev_energy_bins := [20, 1, 0], num_energy_groups := 2,
       libraries := [\<lparr>lib_type = neutron, lib_materials = [''U235'']\<rparr>,
                     \<lparr>lib_type = neutron, lib_materials = [''H1'']\<rparr>]\<rparr>"

definition demo_temps :: "real list list" where
  "demo_temps = [[300], [300, 600]]"

definition demo_loaded :: "real globals" where
  "demo_loaded =
     demo_header\<lparr>nuclides_MG :=
         [Mgxs_from_hdf5 ''H1'' \<lparr>grp_fissionable = False\<rparr> [300],
          Mgxs_from_hdf5 ''U235'' \<lparr>grp_fissionable = True\<rparr> [300, 600]],
       materials := [\<lparr>mat_nuclide = [0], mat_fissionable = False\<rparr>,
                     \<lparr>mat_nuclide = [1, 0], mat_fissionable = True\<rparr>]\<rparr>"

text \<open>A model whose second nuclide has no data set in the library.\<close>

definition demo_unknown :: "real globals" where
  "demo_unknown =
     demo_header\<lparr>nuclide_map := [(''H1'', 0), (''O16'', 1)],
       materials := [\<lparr>mat_nuclide = [0, 1], mat_fissionable = False\<rparr>]\<rparr>"

definition demo_unknown_failed :: "real globals" where
  "demo_unknown_failed =
     demo_unknown\<lparr>nuclides_MG := [Mgxs_from_hdf5 ''H1'' \<lparr>grp_fissionable = False\<rparr> [300]]\<rparr>"

text \<open>Three materials for \<open>create_macro_xs_c\<close>, the second without temperatures.\<close>

definition demo_macro_args :: "real macro_args list" where
  "demo_macro_args =
     [\<lparr>arg_mat_name = ''water'', arg_n_nuclides = 1, arg_i_nuclides = [1], arg_n_temps = 1,
       arg_temps = [300], arg_atom_densities = [1 / 10], arg_tolerance = 10, arg_method = 1\<rparr>,
      \<lparr>arg_mat_name = ''void'', arg_n_nuclides = 0, arg_i_nuclides = [], arg_n_temps = 0,
       arg_temps = [], arg_atom_densities = [], arg_tolerance = 10, arg_method = 1\<rparr>,
      \<lparr>arg_mat_name = ''fuel'', arg_n_nuclides = 2, arg_i_nuclides = [2, 1], arg_n_temps = 2,
       arg_temps = [300, 600], arg_atom_densities = [1 / 50, 1 / 20], arg_tolerance = 10,
       arg_method = 1\<rparr>]"

definition demo_macro :: "real globals" where
  "demo_macro =
     demo_loaded\<lparr>macro_xs :=
       [\<lparr>name = ''water'', kTs = [300], fissionable = False, nuclides = [0],
         atom_densities = [1 / 10]\<rparr>,
        Mgxs_blank,
        \<lparr>name = ''fuel'', kTs = [300, 600], fissionable = True, nuclides = [1, 0],
         atom_densities = [1 / 50, 1 / 20]\<rparr>]\<rparr>"

text \<open>
  A memory of three cells, the second without a value, a lookup that hands back the
  arguments it was called with, and a callee that overwrites what its pointer
  arguments point at.
\<close>

definition demo_mem :: int_mem where
  "demo_mem = [Some 2, None, Some 1]"

definition demo_xsValue ::
  "real Mgxs \<Rightarrow> int \<Rightarrow> int \<Rightarrow> int option \<Rightarrow> unit \<Rightarrow> int option \<Rightarrow>
     string \<times> int \<times> int \<times> int option \<times> int option" where
  "demo_xsValue t xstype gin groupOut mu delayedGroup =
     (name t, xstype, gin, groupOut, delayedGroup)"

definition demo_get_xs ::
  "real Mgxs \<Rightarrow> c_int \<Rightarrow> c_int \<Rightarrow> int_ptr \<Rightarrow> unit \<Rightarrow> int_ptr \<Rightarrow> int_mem \<Rightarrow>
     (string \<times> int_mem) option" where
  "demo_get_xs t xstype gin gout mu dg mem =
     Some (name t,
       (case dg of None \<Rightarrow> (\<lambda>m. m) | Some a \<Rightarrow> (\<lambda>m. m[a := Some 0]))
         ((case gout of None \<Rightarrow> (\<lambda>m. m) | Some a \<Rightarrow> (\<lambda>m. m[a := Some 0])) mem))"

section \<open>Basic facts\<close>

lemma vec_at_Some:
  "vec_at xs i = Some x \<Longrightarrow> 0 \<le> sint i \<and> nat (sint i) < length xs \<and> x = xs ! nat (sint i)"
  by (auto simp: vec_at_def split: if_splits)

lemma vec_at_in_range:
  "0 \<le> sint i \<Longrightarrow> nat (sint i) < length xs \<Longrightarrow> vec_at xs i = Some (xs ! nat (sint i))"
  by (simp add: vec_at_def)

lemma object_exists_open_group: "object_exists f nm \<longleftrightarrow> (\<exists>g. open_group f nm = Some g)"
  by (auto simp: object_exists_def open_group_def)

lemma sint_minus_1:
  assumes "sint (x :: c_int) \<noteq> - (2 ^ 31)"
  shows "sint (x - 1) = sint x - 1"
proof -
  have "- (2 ^ 31) \<le> sint x" "sint x < 2 ^ 31"
    using sint_ge [of x] sint_lt [of x] by simp_all
  with assms have "- (2 ^ 31) \<le> sint x - 1" "sint x - 1 < 2 ^ 31" by simp_all
  then have "signed_take_bit 31 (sint x - 1) = sint x - 1"
    by (rule signed_take_bit_int_eq_self)
  then show ?thesis by (simp add: sint_word_diff)
qed

lemma int_minus_1_Some: "int_minus_1 x = Some y \<Longrightarrow> sint y = sint x - 1"
  by (auto simp: int_minus_1_def sint_minus_1 split: if_splits)

lemma name_Mgxs_from_hdf5 [simp]: "name (Mgxs_from_hdf5 nm g tmp) = nm"
  and fissionable_Mgxs_from_hdf5 [simp]:
    "fissionable (Mgxs_from_hdf5 nm g tmp) = grp_fissionable g"
  by (simp_all add: Mgxs_from_hdf5_def)

lemma set_fissionable_simps [simp]:
  "nuclides_MG (set_fissionable k s) = nuclides_MG s"
  "macro_xs (set_fissionable k s) = macro_xs s"
  "energy_bins (set_fissionable k s) = energy_bins s"
  "energy_bin_avg (set_fissionable k s) = energy_bin_avg s"
  "rev_energy_bins (set_fissionable k s) = rev_energy_bins s"
  "num_energy_groups (set_fissionable k s) = num_energy_groups s"
  "libraries (set_fissionable k s) = libraries s"
  "nuclide_map (set_fissionable k s) = nuclide_map s"
  "length (materials (set_fissionable k s)) = length (materials s)"
  by (simp_all add: set_fissionable_def)

lemma materials_set_fissionable_nth:
  "j < length (materials s) \<Longrightarrow>
     mat_nuclide (materials (set_fissionable k s) ! j) = mat_nuclide (materials s ! j) \<and>
     mat_fissionable (materials (set_fissionable k s) ! j) =
       (mat_fissionable (materials s ! j) \<or> j = k)"
  by (cases "k < length (materials s)") (auto simp: set_fissionable_def nth_list_update)

lemma mat_nuclide_set_fissionable [simp]:
  "map mat_nuclide (materials (set_fissionable k s)) = map mat_nuclide (materials s)"
  by (rule nth_equalityI) (simp_all add: materials_set_fissionable_nth)

lemmas demo_defs = demo_file_def demo_globals_def demo_header_def demo_temps_def
  demo_loaded_def demo_unknown_def demo_unknown_failed_def

lemmas run_defs = read_mgxs_def build_nuclide_names_def vec_at_def add_mgxs_c_def
  object_exists_def open_group_def set_fissionable_def fatal_error_def

lemmas lookup_defs = get_nuclide_xs_c_def get_macro_xs_c_def Mgxs_get_xs_def pointee_def
  deref_def int_minus_1_def vec_at_def demo_xsValue_def demo_mem_def

section \<open>Properties of the header\<close>

lemma energy_bin_avg_loop_Some:
  "energy_bin_avg_loop half bins i avg = Some avg' \<Longrightarrow>
     avg' = avg @ map (\<lambda>k. half * (bins ! k + bins ! (k + 1))) [i..<length bins - 1]
     \<and> (i = 0 \<longrightarrow> bins \<noteq> [])"
proof (induction half bins i avg rule: energy_bin_avg_loop.induct)
  case (1 half bins i avg)
  note unfold = energy_bin_avg_loop.simps [of half bins i avg]
  show ?case
  proof (cases "i < size_t_minus_1 (length bins)")
    case True
    with "1.prems" have ok: "i + 1 < length bins \<and> i < 2 ^ 31 - 1"
      by (subst (asm) unfold) (simp split: if_splits)
    with True "1.prems" have rec: "energy_bin_avg_loop half bins (i + 1)
                (avg @ [half * (bins ! i + bins ! (i + 1))]) = Some avg'"
      by (subst (asm) unfold) simp
    from "1.IH" [OF True ok rec]
    have "avg' = (avg @ [half * (bins ! i + bins ! (i + 1))]) @
            map (\<lambda>k. half * (bins ! k + bins ! (k + 1))) [i + 1..<length bins - 1]"
      by simp
    moreover from ok have "i < length bins - 1" by arith
    then have "[i..<length bins - 1] = i # [i + 1..<length bins - 1]"
      by (simp add: upt_conv_Cons)
    ultimately show ?thesis using ok by auto
  next
    case False
    with "1.prems" have "avg' = avg"
      by (subst (asm) unfold) simp
    moreover have "length bins - 1 \<le> i \<and> (i = 0 \<longrightarrow> bins \<noteq> [])"
      using False unfolding size_t_minus_1_def by (auto split: if_splits)
    ultimately show ?thesis by simp
  qed
qed

lemma energy_bin_avg_loop_defined:
  "bins \<noteq> [] \<Longrightarrow> length bins \<le> 2 ^ 31 \<Longrightarrow> i < length bins \<Longrightarrow>
     \<exists>avg'. energy_bin_avg_loop half bins i avg = Some avg'"
proof (induction half bins i avg rule: energy_bin_avg_loop.induct)
  case (1 half bins i avg)
  note unfold = energy_bin_avg_loop.simps [of half bins i avg]
  from "1.prems" have sz: "size_t_minus_1 (length bins) = length bins - 1"
    by (simp add: size_t_minus_1_def)
  show ?case
  proof (cases "i < length bins - 1")
    case True
    with "1.prems" have ok: "i + 1 < length bins \<and> i < 2 ^ 31 - 1" by arith
    from True sz have c: "i < size_t_minus_1 (length bins)" by simp
    from "1.IH" [OF c ok "1.prems"(1,2)] ok
    obtain avg' where "energy_bin_avg_loop half bins (i + 1)
                (avg @ [half * (bins ! i + bins ! (i + 1))]) = Some avg'" by auto
    with c ok show ?thesis by (subst unfold) simp
  next
    case False
    with sz show ?thesis by (subst unfold) simp
  qed
qed

lemma header_Inr:
  assumes "read_mg_cross_sections_header_c half f s = Inr s'"
  shows "\<exists>n bs. energy_groups f = Some n \<and> group_structure f = Some bs \<and>
     num_energy_groups s' = n \<and> rev_energy_bins s' = bs \<and>
     energy_bins s' = energy_bins s @ rev bs \<and> energy_bins s' \<noteq> [] \<and>
     energy_bin_avg s' = energy_bin_avg s @
        map (\<lambda>k. half * (energy_bins s' ! k + energy_bins s' ! (k + 1)))
          [0..<length (energy_bins s') - 1]"
  using assms
  unfolding read_mg_cross_sections_header_c_def ensure_exists_def fatal_error_def Let_def
  by (auto split: option.splits if_splits dest!: energy_bin_avg_loop_Some)

lemma header_defined:
  assumes "energy_groups f = Some n" and "group_structure f = Some bs"
    and "energy_bins s @ rev bs \<noteq> []" and "length (energy_bins s @ rev bs) \<le> 2 ^ 31"
    and "groups f \<noteq> []"
  shows "\<exists>s'. read_mg_cross_sections_header_c half f s = Inr s'"
proof -
  from assms(3,4) obtain avg' where
    "energy_bin_avg_loop half (energy_bins s @ rev bs) 0 (energy_bin_avg s) = Some avg'"
    using energy_bin_avg_loop_defined [of "energy_bins s @ rev bs" 0 half "energy_bin_avg s"]
    by auto
  with assms(1,2,5) show ?thesis
    unfolding read_mg_cross_sections_header_c_def ensure_exists_def fatal_error_def Let_def
      group_names_def
    by simp
qed

lemma demo_header_run:
  "read_mg_cross_sections_header_c (1 / 2) demo_file demo_globals = Inr demo_header"
  by (simp add: read_mg_cross_sections_header_c_def ensure_exists_def demo_file_def
      demo_globals_def demo_header_def group_names_def energy_bin_avg_loop.simps
      size_t_minus_1_def)

text \<open>
  Reading the header looks neither at the file type nor at the version: these are
  checked by \<open>read_mgxs\<close> alone.
\<close>

lemma header_ignores_type_and_version:
  "read_mg_cross_sections_header_c half (f\<lparr>filetype := ty, version := v\<rparr>) s =
     read_mg_cross_sections_header_c half f s"
  by (simp add: read_mg_cross_sections_header_c_def group_names_def Let_def
      split: sum.splits option.splits)

text \<open>
  Claim C5. A valid library declares a group count \<open>n\<close> and stores \<open>n + 1\<close>
  boundaries in strictly descending order, with at least one data set. Reading the
  header of such a library into a fresh grid succeeds; afterwards the loaded group
  count is \<open>n\<close>, the ascending boundary array is the file's list reversed, it has the
  loaded group count plus one entries and is strictly increasing.
\<close>

theorem header_grid_length_and_order:
  assumes "energy_groups f = Some n" and "group_structure f = Some bs"
    and "0 \<le> sint n" and "int (length bs) = sint n + 1"
    and "sorted_wrt (\<lambda>a b. b < a) bs"
    and "groups f \<noteq> []"
    and "energy_bins s = []"
  shows "\<exists>s'. read_mg_cross_sections_header_c half f s = Inr s' \<and>
           num_energy_groups s' = n \<and> energy_bins s' = rev bs \<and>
           int (length (energy_bins s')) = sint (num_energy_groups s') + 1 \<and>
           sorted_wrt (<) (energy_bins s')"
proof -
  have "sint n < 2 ^ 31" using sint_lt [of n] by simp
  with assms(3,4) have "bs \<noteq> []" "length bs \<le> 2 ^ 31" by auto
  with assms(1,2,6,7) obtain s' where
    run: "read_mg_cross_sections_header_c half f s = Inr s'"
    using header_defined [of f n bs s half] by auto
  from header_Inr [OF run] assms(1,2,4,5,7) run show ?thesis
    by (auto simp: sorted_wrt_rev)
qed

theorem header_grid_length_and_order_witness:
  "read_mg_cross_sections_header_c (1 / 2) demo_file demo_globals = Inr demo_header \<and>
   num_energy_groups demo_header = 2 \<and> energy_bins demo_header = rev [20, 1, 0] \<and>
   energy_bins demo_header = [0, 1, 20] \<and>
   int (length (energy_bins demo_header)) = sint (num_energy_groups demo_header) + 1 \<and>
   sorted_wrt (<) (energy_bins demo_header)"
proof -
  have "energy_groups demo_file = Some 2" "group_structure demo_file = Some [20, 1, 0]"
    "0 \<le> sint (2 :: c_int)" "int (length [20, 1, 0 :: real]) = sint (2 :: c_int) + 1"
    "sorted_wrt (\<lambda>a b. b < a) [20, 1, 0 :: real]"
    "groups demo_file \<noteq> []" "energy_bins demo_globals = []"
    by (simp_all add: demo_file_def demo_globals_def)
  from header_grid_length_and_order [OF this, of "1 / 2"] obtain s' where
    "read_mg_cross_sections_header_c (1 / 2) demo_file demo_globals = Inr s'"
    "num_energy_groups s' = 2" "energy_bins s' = rev [20, 1, 0]"
    "int (length (energy_bins s')) = sint (num_energy_groups s') + 1"
    "sorted_wrt (<) (energy_bins s')" by blast
  with demo_header_run show ?thesis by simp
qed

text \<open>
  Claim C6. After \<open>read_mg_cross_sections_header_c\<close> on a fresh grid, with the
  file holding one boundary more than the group count, the boundary at index \<open>i\<close> of
  the ascending grid is the file's descending boundary at index group count minus
  \<open>i\<close>, for every \<open>i\<close> up to the group count; the file's list is kept as it was read.
\<close>

theorem header_reversal_round_trip:
  assumes "read_mg_cross_sections_header_c half f s = Inr s'"
    and "energy_bins s = []"
    and "group_structure f = Some bs"
    and "int (length bs) = sint (num_energy_groups s') + 1"
    and "i \<le> nat (sint (num_energy_groups s'))"
  shows "energy_bins s' ! i = bs ! (nat (sint (num_energy_groups s')) - i) \<and>
         rev_energy_bins s' = bs"
proof -
  from header_Inr [OF assms(1)] assms(2,3) have "bs \<noteq> []" by auto
  then have "0 < length bs" by simp
  with assms(4,5) have "i < length bs" by arith
  moreover from assms(4,5)
  have "length bs - Suc i = nat (sint (num_energy_groups s')) - i" by arith
  ultimately show ?thesis using header_Inr [OF assms(1)] assms(2,3)
    by (auto simp: rev_nth)
qed

theorem header_reversal_round_trip_witness:
  "read_mg_cross_sections_header_c (1 / 2) demo_file demo_globals = Inr demo_header \<and>
   energy_bins demo_header ! 0 = [20, 1, 0 :: real] ! (2 - 0) \<and>
   energy_bins demo_header ! 2 = [20, 1, 0 :: real] ! (2 - 2) \<and>
   rev_energy_bins demo_header = [20, 1, 0]"
proof -
  have g: "energy_bins demo_globals = []" "group_structure demo_file = Some [20, 1, 0]"
    "int (length [20, 1, 0 :: real]) = sint (num_energy_groups demo_header) + 1"
    "nat (sint (num_energy_groups demo_header)) = 2"
    by (simp_all add: demo_file_def demo_globals_def demo_header_def)
  from header_reversal_round_trip [OF demo_header_run g(1,2,3), of 0]
    header_reversal_round_trip [OF demo_header_run g(1,2,3), of 2] g(4) demo_header_run
  show ?thesis by simp
qed

text \<open>
  Claim C7. After \<open>read_mg_cross_sections_header_c\<close> on a fresh grid, with the
  file holding one boundary more than the group count, there is one average energy
  per group, and the average of group \<open>g\<close> is \<open>0.5 * (boundary[g] + boundary[g+1])\<close>
  on the ascending grid, for every group \<open>g\<close> below the group count.
\<close>

theorem header_average_is_midpoint:
  assumes "read_mg_cross_sections_header_c half f s = Inr s'"
    and "energy_bins s = []" and "energy_bin_avg s = []"
    and "group_structure f = Some bs"
    and "int (length bs) = sint (num_energy_groups s') + 1"
    and "int g < sint (num_energy_groups s')"
  shows "energy_bin_avg s' ! g = half * (energy_bins s' ! g + energy_bins s' ! (g + 1)) \<and>
         int (length (energy_bin_avg s')) = sint (num_energy_groups s')"
proof -
  from assms(5,6) have "g < length bs - 1" by arith
  with header_Inr [OF assms(1)] assms(2-5) show ?thesis
    by auto
qed

theorem header_average_is_midpoint_witness:
  "read_mg_cross_sections_header_c (1 / 2) demo_file demo_globals = Inr demo_header \<and>
   energy_bin_avg demo_header ! 1 =
     1 / 2 * (energy_bins demo_header ! 1 + energy_bins demo_header ! (1 + 1)) \<and>
   energy_bin_avg demo_header ! 1 = 21 / 2 \<and>
   int (length (energy_bin_avg demo_header)) = sint (num_energy_groups demo_header)"
proof -
  have g: "energy_bins demo_globals = []" "energy_bin_avg demo_globals = []"
    "group_structure demo_file = Some [20, 1, 0]"
    "int (length [20, 1, 0 :: real]) = sint (num_energy_groups demo_header) + 1"
    "int 1 < sint (num_energy_groups demo_header)"
    by (simp_all add: demo_file_def demo_globals_def demo_header_def)
  have "energy_bin_avg demo_header ! 1 = 21 / 2" by (simp add: demo_header_def)
  with header_average_is_midpoint [OF demo_header_run g] demo_header_run
  show ?thesis by simp
qed

section \<open>Properties of the loader\<close>

text \<open>
  What one iteration of the inner loop does: it runs into undefined behaviour, or
  stops with the fatal error of \<open>add_mgxs_c\<close> in the state it started in, or goes on
  with the next index.
\<close>

lemma nuclide_loop_Cons_cases:
  "nuclide_loop f names temps k (i # rest) (ar, s) = Inl Undefined \<or>
   (\<exists>nm. vec_at names i = Some nm \<and> nm \<notin> ar \<and> \<not> object_exists f nm \<and>
      nuclide_loop f names temps k (i # rest) (ar, s) =
        Inl (Fatal (''Data for '' @ nm @ '' does not exist in provided MGXS Library'') s)) \<or>
   (\<exists>nm ar1 s1 t.
      vec_at names i = Some nm \<and>
      (if nm \<in> ar then ar1 = ar \<and> s1 = s
       else \<exists>tmp g. vec_at temps i = Some tmp \<and> open_group f nm = Some g \<and>
              ar1 = insert nm ar \<and>
              s1 = s\<lparr>nuclides_MG := nuclides_MG s @ [Mgxs_from_hdf5 nm g tmp]\<rparr>) \<and>
      vec_at (nuclides_MG s1) i = Some t \<and>
      nuclide_loop f names temps k (i # rest) (ar, s) =
        nuclide_loop f names temps k rest
          (ar1, if fissionable t then set_fissionable k s1 else s1))"
  by (auto simp: add_mgxs_c_def fatal_error_def object_exists_open_group
      split: option.splits sum.splits if_splits)

text \<open>
  Two rules for the loops. A property of the seen-set and the globals that holds at
  the start, that adding a table keeps and that flagging a material keeps, holds
  when a loop returns, and holds of the state in which a loop stops with a fatal
  error, which is then the error of \<open>add_mgxs_c\<close> for a name not seen before.
\<close>

lemma nuclide_loop_invariant:
  assumes run: "nuclide_loop f names temps k is (ar, s) = Inr (ar', s')"
    and init: "P ar s"
    and add: "\<And>ar s i nm tmp g t. P ar s \<Longrightarrow> vec_at names i = Some nm \<Longrightarrow> nm \<notin> ar \<Longrightarrow>
        vec_at temps i = Some tmp \<Longrightarrow> open_group f nm = Some g \<Longrightarrow>
        vec_at (nuclides_MG s @ [Mgxs_from_hdf5 nm g tmp]) i = Some t \<Longrightarrow>
        P (insert nm ar) (s\<lparr>nuclides_MG := nuclides_MG s @ [Mgxs_from_hdf5 nm g tmp]\<rparr>)"
    and flag: "\<And>ar s. P ar s \<Longrightarrow> P ar (set_fissionable k s)"
  shows "P ar' s'"
  using run init
proof (induction "is" arbitrary: ar s)
  case Nil
  then show ?case by simp
next
  case (Cons i rest)
  from nuclide_loop_Cons_cases [of f names temps k i rest ar s] Cons.prems(1)
  obtain nm ar1 s1 t where
    nm: "vec_at names i = Some nm"
    and step: "if nm \<in> ar then ar1 = ar \<and> s1 = s
       else \<exists>tmp g. vec_at temps i = Some tmp \<and> open_group f nm = Some g \<and>
              ar1 = insert nm ar \<and>
              s1 = s\<lparr>nuclides_MG := nuclides_MG s @ [Mgxs_from_hdf5 nm g tmp]\<rparr>"
    and t: "vec_at (nuclides_MG s1) i = Some t"
    and rest: "nuclide_loop f names temps k rest
          (ar1, if fissionable t then set_fissionable k s1 else s1) = Inr (ar', s')"
    by auto
  have "P ar1 s1"
  proof (cases "nm \<in> ar")
    case True
    with step Cons.prems(2) show ?thesis by simp
  next
    case False
    with step obtain tmp g where "vec_at temps i = Some tmp" "open_group f nm = Some g"
      "ar1 = insert nm ar"
      "s1 = s\<lparr>nuclides_MG := nuclides_MG s @ [Mgxs_from_hdf5 nm g tmp]\<rparr>" by auto
    with add [OF Cons.prems(2) nm False, of tmp g t] t show ?thesis by simp
  qed
  then have "P ar1 (if fissionable t then set_fissionable k s1 else s1)"
    using flag by simp
  with Cons.IH [OF rest] show ?case .
qed

lemma nuclide_loop_fatal:
  assumes run: "nuclide_loop f names temps k is (ar, s) = Inl (Fatal msg s')"
    and init: "P ar s"
    and add: "\<And>ar s i nm tmp g t. P ar s \<Longrightarrow> vec_at names i = Some nm \<Longrightarrow> nm \<notin> ar \<Longrightarrow>
        vec_at temps i = Some tmp \<Longrightarrow> open_group f nm = Some g \<Longrightarrow>
        vec_at (nuclides_MG s @ [Mgxs_from_hdf5 nm g tmp]) i = Some t \<Longrightarrow>
        P (insert nm ar) (s\<lparr>nuclides_MG := nuclides_MG s @ [Mgxs_from_hdf5 nm g tmp]\<rparr>)"
    and flag: "\<And>ar s. P ar s \<Longrightarrow> P ar (set_fissionable k s)"
  shows "\<exists>ar1 nm. P ar1 s' \<and> nm \<notin> ar1 \<and> \<not> object_exists f nm \<and>
           msg = ''Data for '' @ nm @ '' does not exist in provided MGXS Library''"
  using run init
proof (induction "is" arbitrary: ar s)
  case Nil
  then show ?case by simp
next
  case (Cons i rest)
  from nuclide_loop_Cons_cases [of f names temps k i rest ar s] Cons.prems(1)
  consider
    (stop) nm where "nm \<notin> ar" "\<not> object_exists f nm"
      "msg = ''Data for '' @ nm @ '' does not exist in provided MGXS Library''" "s' = s"
  | (go) nm ar1 s1 t where "vec_at names i = Some nm"
      "if nm \<in> ar then ar1 = ar \<and> s1 = s
       else \<exists>tmp g. vec_at temps i = Some tmp \<and> open_group f nm = Some g \<and>
              ar1 = insert nm ar \<and>
              s1 = s\<lparr>nuclides_MG := nuclides_MG s @ [Mgxs_from_hdf5 nm g tmp]\<rparr>"
      "vec_at (nuclides_MG s1) i = Some t"
      "nuclide_loop f names temps k rest
          (ar1, if fissionable t then set_fissionable k s1 else s1) = Inl (Fatal msg s')"
    by auto
  then show ?case
  proof cases
    case stop
    with Cons.prems(2) show ?thesis by blast
  next
    case go
    have "P ar1 s1"
    proof (cases "nm \<in> ar")
      case True
      with go(2) Cons.prems(2) show ?thesis by simp
    next
      case False
      with go(2) obtain tmp g where "vec_at temps i = Some tmp" "open_group f nm = Some g"
        "ar1 = insert nm ar"
        "s1 = s\<lparr>nuclides_MG := nuclides_MG s @ [Mgxs_from_hdf5 nm g tmp]\<rparr>" by auto
      with add [OF Cons.prems(2) go(1) False, of tmp g t] go(3) show ?thesis by simp
    qed
    then have "P ar1 (if fissionable t then set_fissionable k s1 else s1)"
      using flag by simp
    with Cons.IH [OF go(4)] show ?thesis .
  qed
qed

lemma material_loop_invariant:
  assumes run: "material_loop f names temps ks (ar, s) = Inr (ar', s')"
    and init: "P ar s"
    and add: "\<And>ar s i nm tmp g t. P ar s \<Longrightarrow> vec_at names i = Some nm \<Longrightarrow> nm \<notin> ar \<Longrightarrow>
        vec_at temps i = Some tmp \<Longrightarrow> open_group f nm = Some g \<Longrightarrow>
        vec_at (nuclides_MG s @ [Mgxs_from_hdf5 nm g tmp]) i = Some t \<Longrightarrow>
        P (insert nm ar) (s\<lparr>nuclides_MG := nuclides_MG s @ [Mgxs_from_hdf5 nm g tmp]\<rparr>)"
    and flag: "\<And>ar s k. P ar s \<Longrightarrow> P ar (set_fissionable k s)"
  shows "P ar' s'"
  using run init
proof (induction ks arbitrary: ar s)
  case Nil
  then show ?case by simp
next
  case (Cons k ks)
  from Cons.prems(1) obtain ar1 s1 where
    inner: "nuclide_loop f names temps k (mat_nuclide (materials s ! k)) (ar, s) = Inr (ar1, s1)"
    and rest: "material_loop f names temps ks (ar1, s1) = Inr (ar', s')"
    by (auto split: sum.splits)
  have "P ar1 s1"
    by (rule nuclide_loop_invariant [where P = P, OF inner Cons.prems(2)])
      (rule add flag; assumption)+
  with Cons.IH [OF rest] show ?case .
qed

lemma material_loop_fatal:
  assumes run: "material_loop f names temps ks (ar, s) = Inl (Fatal msg s')"
    and init: "P ar s"
    and add: "\<And>ar s i nm tmp g t. P ar s \<Longrightarrow> vec_at names i = Some nm \<Longrightarrow> nm \<notin> ar \<Longrightarrow>
        vec_at temps i = Some tmp \<Longrightarrow> open_group f nm = Some g \<Longrightarrow>
        vec_at (nuclides_MG s @ [Mgxs_from_hdf5 nm g tmp]) i = Some t \<Longrightarrow>
        P (insert nm ar) (s\<lparr>nuclides_MG := nuclides_MG s @ [Mgxs_from_hdf5 nm g tmp]\<rparr>)"
    and flag: "\<And>ar s k. P ar s \<Longrightarrow> P ar (set_fissionable k s)"
  shows "\<exists>ar1 nm. P ar1 s' \<and> nm \<notin> ar1 \<and> \<not> object_exists f nm \<and>
           msg = ''Data for '' @ nm @ '' does not exist in provided MGXS Library''"
  using run init
proof (induction ks arbitrary: ar s)
  case Nil
  then show ?case by simp
next
  case (Cons k ks)
  let ?inner = "nuclide_loop f names temps k (mat_nuclide (materials s ! k)) (ar, s)"
  show ?case
  proof (cases ?inner)
    case (Inl e)
    with Cons.prems(1) have "?inner = Inl (Fatal msg s')" by simp
    then show ?thesis
      by (rule nuclide_loop_fatal [where P = P, OF _ Cons.prems(2)])
        (rule add flag; assumption)+
  next
    case (Inr st1)
    obtain ar1 s1 where st1: "st1 = (ar1, s1)" by (cases st1)
    from Inr st1 Cons.prems(1) have rest: "material_loop f names temps ks (ar1, s1) = Inl (Fatal msg s')"
      by simp
    from Inr st1 have "?inner = Inr (ar1, s1)" by simp
    then have "P ar1 s1"
      by (rule nuclide_loop_invariant [where P = P, OF _ Cons.prems(2)])
        (rule add flag; assumption)+
    with Cons.IH [OF rest] show ?thesis .
  qed
qed

lemma loader_frame_refl: "loader_frame s s"
  by (simp add: loader_frame_def)

lemma loader_frame_add:
  "loader_frame s0 s \<Longrightarrow> loader_frame s0 (s\<lparr>nuclides_MG := store\<rparr>)"
  by (simp add: loader_frame_def)

lemma loader_frame_flag: "loader_frame s0 s \<Longrightarrow> loader_frame s0 (set_fissionable k s)"
  by (simp add: loader_frame_def)

lemma loaded_once_init: "loaded_once f (nuclides_MG s) {} s"
  by (simp add: loaded_once_def)

lemma loaded_once_add:
  assumes "loaded_once f store0 ar s" and "nm \<notin> ar" and "open_group f nm = Some g"
  shows "loaded_once f store0 (insert nm ar)
           (s\<lparr>nuclides_MG := nuclides_MG s @ [Mgxs_from_hdf5 nm g tmp]\<rparr>)"
proof -
  from assms(1) obtain new where new: "nuclides_MG s = store0 @ new"
    "distinct (map name new)" "set (map name new) = ar" "\<forall>t \<in> set new. object_exists f (name t)"
    unfolding loaded_once_def by blast
  let ?new = "new @ [Mgxs_from_hdf5 nm g tmp]"
  from new assms(2,3) have "nuclides_MG s @ [Mgxs_from_hdf5 nm g tmp] = store0 @ ?new"
    "distinct (map name ?new)" "set (map name ?new) = insert nm ar"
    "\<forall>t \<in> set ?new. object_exists f (name t)"
    by (auto simp: object_exists_open_group)
  then show ?thesis unfolding loaded_once_def by (intro exI [of _ ?new]) simp
qed

lemma loaded_once_flag: "loaded_once f store0 ar s \<Longrightarrow> loaded_once f store0 ar (set_fissionable k s)"
  by (simp add: loaded_once_def)

lemma store_in_order_init: "nuclides_MG s = [] \<Longrightarrow> store_in_order f names {} s"
  by (simp add: store_in_order_def)

lemma store_in_order_add:
  assumes ord: "store_in_order f names ar s" and nm: "vec_at names i = Some nm" "nm \<notin> ar"
    and g: "open_group f nm = Some g"
    and t: "vec_at (nuclides_MG s @ [Mgxs_from_hdf5 nm g tmp]) i = Some t"
  shows "store_in_order f names (insert nm ar)
           (s\<lparr>nuclides_MG := nuclides_MG s @ [Mgxs_from_hdf5 nm g tmp]\<rparr>)
         \<and> nat (sint i) = length (nuclides_MG s)"
proof -
  let ?n = "length (nuclides_MG s)"
  from vec_at_Some [OF nm(1)] have i: "names ! nat (sint i) = nm" by simp
  from vec_at_Some [OF t] have le: "nat (sint i) \<le> ?n" by simp
  have "\<not> nat (sint i) < ?n"
  proof
    assume lt: "nat (sint i) < ?n"
    with ord obtain g' tmp' where
      "nuclides_MG s ! nat (sint i) = Mgxs_from_hdf5 (names ! nat (sint i)) g' tmp'"
      unfolding store_in_order_def by blast
    with i have "name (nuclides_MG s ! nat (sint i)) = nm" by simp
    with lt have "nm \<in> set (map name (nuclides_MG s))"
      by (metis length_map nth_map nth_mem)
    with ord nm(2) show False unfolding store_in_order_def by simp
  qed
  with le have eq: "nat (sint i) = ?n" by simp
  let ?s' = "s\<lparr>nuclides_MG := nuclides_MG s @ [Mgxs_from_hdf5 nm g tmp]\<rparr>"
  have "\<exists>g' tmp'. open_group f (names ! q) = Some g' \<and>
          nuclides_MG ?s' ! q = Mgxs_from_hdf5 (names ! q) g' tmp'"
    if "q < length (nuclides_MG ?s')" for q
  proof (cases "q < ?n")
    case True
    with ord show ?thesis unfolding store_in_order_def by (simp add: nth_append)
  next
    case False
    with that have "q = ?n" by simp
    with eq i g show ?thesis by (auto simp: nth_append)
  qed
  moreover from ord have "insert nm ar = set (map name (nuclides_MG ?s'))"
    unfolding store_in_order_def by simp
  ultimately show ?thesis using eq unfolding store_in_order_def by blast
qed

lemma store_in_order_flag:
  "store_in_order f names ar s \<Longrightarrow> store_in_order f names ar (set_fissionable k s)"
  by (simp add: store_in_order_def)

lemma nuclide_loop_frame:
  assumes "nuclide_loop f names temps k is (ar, s) = Inr (ar', s')"
  shows "loader_frame s s'"
  by (rule nuclide_loop_invariant [where P = "\<lambda>ar. loader_frame s", OF assms loader_frame_refl])
    (simp_all add: loader_frame_add loader_frame_flag)

lemma loader_frame_materials:
  assumes "loader_frame s s'"
  shows "length (materials s') = length (materials s)"
    and "j < length (materials s) \<Longrightarrow> mat_nuclide (materials s' ! j) = mat_nuclide (materials s ! j)"
proof -
  from assms have eq: "map mat_nuclide (materials s') = map mat_nuclide (materials s)"
    by (simp add: loader_frame_def)
  then show len: "length (materials s') = length (materials s)"
    by (rule map_eq_imp_length_eq)
  assume "j < length (materials s)"
  with len have "map mat_nuclide (materials s') ! j = mat_nuclide (materials s' ! j)"
    "map mat_nuclide (materials s) ! j = mat_nuclide (materials s ! j)" by simp_all
  with eq show "mat_nuclide (materials s' ! j) = mat_nuclide (materials s ! j)" by simp
qed

text \<open>The indices an inner loop has gone through are loaded when it returns.\<close>

lemma nuclide_loop_seen:
  assumes "nuclide_loop f names temps k is (ar, s) = Inr (ar', s')"
  shows "ar \<subseteq> ar' \<and> length (nuclides_MG s) \<le> length (nuclides_MG s') \<and>
         (\<forall>i \<in> set is. 0 \<le> sint i \<and> nat (sint i) < length names \<and>
            names ! nat (sint i) \<in> ar' \<and> nat (sint i) < length (nuclides_MG s'))"
  using assms
proof (induction "is" arbitrary: ar s)
  case Nil
  then show ?case by simp
next
  case (Cons i rest)
  from nuclide_loop_Cons_cases [of f names temps k i rest ar s] Cons.prems(1)
  obtain nm ar1 s1 t where
    nm: "vec_at names i = Some nm"
    and step: "if nm \<in> ar then ar1 = ar \<and> s1 = s
       else \<exists>tmp g. vec_at temps i = Some tmp \<and> open_group f nm = Some g \<and>
              ar1 = insert nm ar \<and>
              s1 = s\<lparr>nuclides_MG := nuclides_MG s @ [Mgxs_from_hdf5 nm g tmp]\<rparr>"
    and t: "vec_at (nuclides_MG s1) i = Some t"
    and rest: "nuclide_loop f names temps k rest
          (ar1, if fissionable t then set_fissionable k s1 else s1) = Inr (ar', s')"
    by auto
  from Cons.IH [OF rest]
  have ih: "ar1 \<subseteq> ar'" "length (nuclides_MG s1) \<le> length (nuclides_MG s')"
    "\<forall>i \<in> set rest. 0 \<le> sint i \<and> nat (sint i) < length names \<and>
            names ! nat (sint i) \<in> ar' \<and> nat (sint i) < length (nuclides_MG s')"
    by (auto split: if_splits)
  from step have mono: "ar \<subseteq> ar1" "nm \<in> ar1" "length (nuclides_MG s) \<le> length (nuclides_MG s1)"
    by (auto split: if_splits)
  from vec_at_Some [OF nm] vec_at_Some [OF t] mono ih
  show ?case by auto
qed

lemma material_loop_seen:
  assumes "material_loop f names temps ks (ar, s) = Inr (ar', s')"
    and "\<forall>k \<in> set ks. k < length (materials s)"
  shows "ar \<subseteq> ar' \<and> length (nuclides_MG s) \<le> length (nuclides_MG s') \<and>
         (\<forall>k \<in> set ks. \<forall>i \<in> set (mat_nuclide (materials s ! k)).
            0 \<le> sint i \<and> nat (sint i) < length names \<and>
            names ! nat (sint i) \<in> ar' \<and> nat (sint i) < length (nuclides_MG s'))"
  using assms
proof (induction ks arbitrary: ar s)
  case Nil
  then show ?case by simp
next
  case (Cons k ks)
  from Cons.prems(1) obtain ar1 s1 where
    inner: "nuclide_loop f names temps k (mat_nuclide (materials s ! k)) (ar, s) = Inr (ar1, s1)"
    and rest: "material_loop f names temps ks (ar1, s1) = Inr (ar', s')"
    by (auto split: sum.splits)
  note fr = loader_frame_materials [OF nuclide_loop_frame [OF inner]]
  from Cons.prems(2) fr(1) have ks: "\<forall>k \<in> set ks. k < length (materials s1)" by simp
  from Cons.IH [OF rest ks] Cons.prems(2) fr(2)
  have ih: "ar1 \<subseteq> ar'" "length (nuclides_MG s1) \<le> length (nuclides_MG s')"
    "\<forall>k \<in> set ks. \<forall>i \<in> set (mat_nuclide (materials s ! k)).
            0 \<le> sint i \<and> nat (sint i) < length names \<and>
            names ! nat (sint i) \<in> ar' \<and> nat (sint i) < length (nuclides_MG s')"
    by auto
  from nuclide_loop_seen [OF inner] ih(1,2)
  have "ar \<subseteq> ar'" "length (nuclides_MG s) \<le> length (nuclides_MG s')"
    "\<forall>i \<in> set (mat_nuclide (materials s ! k)).
            0 \<le> sint i \<and> nat (sint i) < length names \<and>
            names ! nat (sint i) \<in> ar' \<and> nat (sint i) < length (nuclides_MG s')"
    by auto
  with ih(3) show ?case by simp
qed

lemma store_in_order_fissionable:
  assumes "store_in_order f names ar s" and "q < length (nuclides_MG s)"
  shows "fissionable (nuclides_MG s ! q) = nuclide_fissionable f (names ! q)"
  using assms unfolding store_in_order_def nuclide_fissionable_def by fastforce

lemma nuclide_loop_flags:
  assumes "nuclide_loop f names temps k is (ar, s) = Inr (ar', s')"
    and "store_in_order f names ar s"
    and "j < length (materials s)"
  shows "store_in_order f names ar' s' \<and>
         mat_fissionable (materials s' ! j) =
           (mat_fissionable (materials s ! j) \<or>
            j = k \<and> (\<exists>i \<in> set is. nuclide_fissionable f (names ! nat (sint i))))"
  using assms
proof (induction "is" arbitrary: ar s)
  case Nil
  then show ?case by simp
next
  case (Cons i rest)
  from nuclide_loop_Cons_cases [of f names temps k i rest ar s] Cons.prems(1)
  obtain nm ar1 s1 t where
    nm: "vec_at names i = Some nm"
    and step: "if nm \<in> ar then ar1 = ar \<and> s1 = s
       else \<exists>tmp g. vec_at temps i = Some tmp \<and> open_group f nm = Some g \<and>
              ar1 = insert nm ar \<and>
              s1 = s\<lparr>nuclides_MG := nuclides_MG s @ [Mgxs_from_hdf5 nm g tmp]\<rparr>"
    and t: "vec_at (nuclides_MG s1) i = Some t"
    and rest: "nuclide_loop f names temps k rest
          (ar1, if fissionable t then set_fissionable k s1 else s1) = Inr (ar', s')"
    by auto
  let ?s2 = "if fissionable t then set_fissionable k s1 else s1"
  have ord1: "store_in_order f names ar1 s1"
  proof (cases "nm \<in> ar")
    case True
    with step Cons.prems(2) show ?thesis by simp
  next
    case False
    with step obtain tmp g where *: "vec_at temps i = Some tmp" "open_group f nm = Some g"
      "ar1 = insert nm ar"
      "s1 = s\<lparr>nuclides_MG := nuclides_MG s @ [Mgxs_from_hdf5 nm g tmp]\<rparr>" by auto
    with t have "vec_at (nuclides_MG s @ [Mgxs_from_hdf5 nm g tmp]) i = Some t" by simp
    from store_in_order_add [OF Cons.prems(2) nm False *(2) this] *(3,4)
    show ?thesis by simp
  qed
  from step have mats1: "materials s1 = materials s" by (auto split: if_splits)
  from vec_at_Some [OF t] store_in_order_fissionable [OF ord1]
  have ft: "fissionable t = nuclide_fissionable f (names ! nat (sint i))" by simp
  from ord1 have ord2: "store_in_order f names ar1 ?s2"
    by (simp add: store_in_order_flag)
  from Cons.prems(3) mats1 have j2: "j < length (materials ?s2)" by simp
  from Cons.prems(3) mats1 materials_set_fissionable_nth [of j s1 k]
  have flag2: "mat_fissionable (materials ?s2 ! j) =
      (mat_fissionable (materials s ! j) \<or> j = k \<and> nuclide_fissionable f (names ! nat (sint i)))"
    using ft by auto
  from Cons.IH [OF rest ord2 j2] flag2 show ?case by auto
qed

lemma material_loop_flags:
  assumes "material_loop f names temps ks (ar, s) = Inr (ar', s')"
    and "store_in_order f names ar s"
    and "j < length (materials s)"
  shows "store_in_order f names ar' s' \<and>
         mat_fissionable (materials s' ! j) =
           (mat_fissionable (materials s ! j) \<or>
            j \<in> set ks \<and> (\<exists>i \<in> set (mat_nuclide (materials s ! j)).
                             nuclide_fissionable f (names ! nat (sint i))))"
  using assms
proof (induction ks arbitrary: ar s)
  case Nil
  then show ?case by simp
next
  case (Cons k ks)
  from Cons.prems(1) obtain ar1 s1 where
    inner: "nuclide_loop f names temps k (mat_nuclide (materials s ! k)) (ar, s) = Inr (ar1, s1)"
    and rest: "material_loop f names temps ks (ar1, s1) = Inr (ar', s')"
    by (auto split: sum.splits)
  note fr = loader_frame_materials [OF nuclide_loop_frame [OF inner]]
  from nuclide_loop_flags [OF inner Cons.prems(2,3)]
  have ord1: "store_in_order f names ar1 s1"
    and flag1: "mat_fissionable (materials s1 ! j) =
           (mat_fissionable (materials s ! j) \<or>
            j = k \<and> (\<exists>i \<in> set (mat_nuclide (materials s ! k)).
                        nuclide_fissionable f (names ! nat (sint i))))"
    by simp_all
  from Cons.prems(3) fr have j1: "j < length (materials s1)"
    and nuc: "mat_nuclide (materials s1 ! j) = mat_nuclide (materials s ! j)" by simp_all
  from Cons.IH [OF rest ord1 j1] flag1 nuc show ?case by auto
qed

lemma read_mgxs_Inr:
  assumes "read_mgxs path file nuc_temps V s = Inr s'"
  shows "\<exists>f names ar'. file = Some f \<and> filetype f = ''mgxs'' \<and> version f = V \<and>
           build_nuclide_names s = Some names \<and>
           material_loop f names nuc_temps [0..<length (materials s)] ({}, s) = Inr (ar', s')"
  using assms unfolding read_mgxs_def fatal_error_def
  by (auto split: option.splits if_splits sum.splits)

lemma material_loop_loaded_once:
  assumes "material_loop f names temps ks ({}, s) = Inr (ar', s')"
  shows "loaded_once f (nuclides_MG s) ar' s'"
  by (rule material_loop_invariant [where P = "loaded_once f (nuclides_MG s)", OF assms loaded_once_init])
    (simp_all add: loaded_once_add loaded_once_flag)

lemma count_distinct_member:
  assumes "distinct (map h xs)" and "y \<in> set (map h xs)"
  shows "length (filter (\<lambda>x. h x = y) xs) = 1"
  using assms
proof (induction xs)
  case Nil
  then show ?case by simp
next
  case (Cons x xs)
  show ?case
  proof (cases "h x = y")
    case True
    with Cons.prems(1) have "\<forall>x' \<in> set xs. h x' \<noteq> y" by (auto simp: image_iff)
    then have "filter (\<lambda>x. h x = y) xs = []" by (simp add: filter_empty_conv)
    with True show ?thesis by simp
  next
    case False
    with Cons show ?thesis by auto
  qed
qed

lemma material_loop_exists:
  assumes "material_loop f names temps ks ({}, s) = Inr (ar', s')"
  shows "\<forall>nm \<in> ar'. object_exists f nm"
  using material_loop_loaded_once [OF assms] unfolding loaded_once_def by auto

text \<open>
  With distinct names, indices numbered by first use and in the range of the name
  and temperature vectors, and an empty store at the start, no access of the loops
  is out of range: \<open>read_mgxs\<close> returns or stops with a fatal error.
\<close>

lemma store_prefix_member:
  assumes "store_prefix f names ar s" and "distinct names" and "q < length names"
  shows "names ! q \<in> ar \<longleftrightarrow> q < length (nuclides_MG s)"
proof
  assume "names ! q \<in> ar"
  with assms(1) obtain p where p: "p < length (nuclides_MG s)" "name (nuclides_MG s ! p) = names ! q"
    unfolding store_prefix_def store_in_order_def by (auto simp: in_set_conv_nth)
  with assms(1) have "names ! p = names ! q" "p < length names"
    unfolding store_prefix_def store_in_order_def by fastforce+
  with assms(2,3) have "p = q" by (simp add: nth_eq_iff_index_eq)
  with p show "q < length (nuclides_MG s)" by simp
next
  assume "q < length (nuclides_MG s)"
  with assms(1) have "name (nuclides_MG s ! q) = names ! q" "name (nuclides_MG s ! q) \<in> ar"
    unfolding store_prefix_def store_in_order_def by fastforce+
  then show "names ! q \<in> ar" by simp
qed

lemma nuclide_loop_defined:
  assumes "store_prefix f names ar s" and "distinct names"
    and "numbered_by_first_use (length (nuclides_MG s)) (is @ rest)"
    and "\<forall>i \<in> set is. nat (sint i) < length names \<and> nat (sint i) < length temps"
  shows "nuclide_loop f names temps k is (ar, s) \<noteq> Inl Undefined \<and>
         (\<forall>ar' s'. nuclide_loop f names temps k is (ar, s) = Inr (ar', s') \<longrightarrow>
            store_prefix f names ar' s' \<and>
            numbered_by_first_use (length (nuclides_MG s')) rest)"
  using assms(1,3,4)
proof (induction "is" arbitrary: ar s)
  case Nil
  then show ?case by simp
next
  case (Cons i more)
  let ?n = "length (nuclides_MG s)"
  let ?q = "nat (sint i)"
  from Cons.prems(2) have i: "0 \<le> sint i" "?q \<le> ?n"
    and num: "numbered_by_first_use (if ?q = ?n then ?n + 1 else ?n) (more @ rest)" by simp_all
  from Cons.prems(3) have rng: "?q < length names" "?q < length temps"
    and rng': "\<forall>i \<in> set more. nat (sint i) < length names \<and> nat (sint i) < length temps"
    by simp_all
  note nm = vec_at_in_range [OF i(1) rng(1)]
  note tmp = vec_at_in_range [OF i(1) rng(2)]
  note mem = store_prefix_member [OF Cons.prems(1) assms(2) rng(1)]
  show ?case
  proof (cases "?q < ?n")
    case True
    with mem have seen: "names ! ?q \<in> ar" by simp
    let ?t = "nuclides_MG s ! ?q"
    let ?s2 = "if fissionable ?t then set_fissionable k s else s"
    from True i have t: "vec_at (nuclides_MG s) i = Some ?t" by (simp add: vec_at_def)
    from nm seen t have eq: "nuclide_loop f names temps k (i # more) (ar, s) =
        nuclide_loop f names temps k more (ar, ?s2)" by simp
    from Cons.prems(1) have "store_prefix f names ar ?s2"
      by (simp add: store_prefix_def store_in_order_flag)
    moreover from True num have "numbered_by_first_use (length (nuclides_MG ?s2)) (more @ rest)"
      by simp
    ultimately show ?thesis using Cons.IH [of ar ?s2] rng' eq by simp
  next
    case False
    with i have q: "?q = ?n" by simp
    with mem have new: "names ! ?q \<notin> ar" by simp
    show ?thesis
    proof (cases "open_group f (names ! ?q)")
      case None
      then have "\<not> object_exists f (names ! ?q)" by (simp add: object_exists_open_group)
      with nm new tmp show ?thesis by (simp add: add_mgxs_c_def fatal_error_def)
    next
      case (Some g)
      let ?t = "Mgxs_from_hdf5 (names ! ?q) g (temps ! ?q)"
      let ?s1 = "s\<lparr>nuclides_MG := nuclides_MG s @ [?t]\<rparr>"
      let ?s2 = "if fissionable ?t then set_fissionable k ?s1 else ?s1"
      from q i have t: "vec_at (nuclides_MG s @ [?t]) i = Some ?t"
        by (simp add: vec_at_def)
      from Some have ex: "object_exists f (names ! ?q)" by (simp add: object_exists_open_group)
      from nm new tmp ex Some t
      have eq: "nuclide_loop f names temps k (i # more) (ar, s) =
          nuclide_loop f names temps k more (insert (names ! ?q) ar, ?s2)"
        by (simp add: add_mgxs_c_def)
      from Cons.prems(1) have ord: "store_in_order f names ar s"
        by (simp add: store_prefix_def)
      from store_in_order_add [OF ord nm new Some t] q rng(1)
      have "store_prefix f names (insert (names ! ?q) ar) ?s1"
        by (simp add: store_prefix_def)
      then have "store_prefix f names (insert (names ! ?q) ar) ?s2"
        by (simp add: store_prefix_def store_in_order_flag)
      moreover from q num have "numbered_by_first_use (length (nuclides_MG ?s2)) (more @ rest)"
        by simp
      ultimately show ?thesis using Cons.IH [of "insert (names ! ?q) ar" ?s2] rng' eq by simp
    qed
  qed
qed

lemma material_loop_defined:
  assumes "store_prefix f names ar s" and "distinct names"
    and "numbered_by_first_use (length (nuclides_MG s))
           (concat (map (\<lambda>k. mat_nuclide (materials s ! k)) ks))"
    and "\<forall>k \<in> set ks. k < length (materials s) \<and>
           (\<forall>i \<in> set (mat_nuclide (materials s ! k)).
              nat (sint i) < length names \<and> nat (sint i) < length temps)"
  shows "material_loop f names temps ks (ar, s) \<noteq> Inl Undefined"
  using assms(1,3,4)
proof (induction ks arbitrary: ar s)
  case Nil
  then show ?case by simp
next
  case (Cons k ks)
  let ?is = "mat_nuclide (materials s ! k)"
  let ?rest = "concat (map (\<lambda>k. mat_nuclide (materials s ! k)) ks)"
  from Cons.prems(2) have num: "numbered_by_first_use (length (nuclides_MG s)) (?is @ ?rest)"
    by simp
  from Cons.prems(3) have rng: "\<forall>i \<in> set ?is. nat (sint i) < length names \<and> nat (sint i) < length temps"
    by simp
  note inner = nuclide_loop_defined [OF Cons.prems(1) assms(2) num rng, of k]
  show ?case
  proof (cases "nuclide_loop f names temps k ?is (ar, s)")
    case (Inl e)
    with inner show ?thesis by simp
  next
    case (Inr st)
    obtain ar1 s1 where st: "st = (ar1, s1)" by (cases st)
    from Inr st have run: "nuclide_loop f names temps k ?is (ar, s) = Inr (ar1, s1)" by simp
    with inner have pre: "store_prefix f names ar1 s1"
      and num1: "numbered_by_first_use (length (nuclides_MG s1)) ?rest" by simp_all
    note fr = loader_frame_materials [OF nuclide_loop_frame [OF run]]
    from Cons.prems(3) fr have same: "\<forall>k \<in> set ks. mat_nuclide (materials s1 ! k) = mat_nuclide (materials s ! k)"
      by simp
    then have meq: "map (\<lambda>k. mat_nuclide (materials s1 ! k)) ks =
        map (\<lambda>k. mat_nuclide (materials s ! k)) ks"
      by simp
    from num1 have num1': "numbered_by_first_use (length (nuclides_MG s1))
           (concat (map (\<lambda>k. mat_nuclide (materials s1 ! k)) ks))"
      unfolding meq .
    from Cons.prems(3) fr(1) same have rng1: "\<forall>k \<in> set ks. k < length (materials s1) \<and>
           (\<forall>i \<in> set (mat_nuclide (materials s1 ! k)).
              nat (sint i) < length names \<and> nat (sint i) < length temps)" by simp
    from Cons.IH [OF pre num1' rng1] run show ?thesis by simp
  qed
qed

lemma read_mgxs_defined:
  assumes "build_nuclide_names s = Some names" and "distinct names"
    and "nuclides_MG s = []"
    and "numbered_by_first_use 0 (concat (map mat_nuclide (materials s)))"
    and "\<forall>i \<in> set (concat (map mat_nuclide (materials s))).
           nat (sint i) < length names \<and> nat (sint i) < length nuc_temps"
  shows "read_mgxs path file nuc_temps V s \<noteq> Inl Undefined"
proof -
  have ks: "map (\<lambda>k. mat_nuclide (materials s ! k)) [0..<length (materials s)] =
      map mat_nuclide (materials s)"
    by (rule nth_equalityI) simp_all
  have "material_loop f names nuc_temps [0..<length (materials s)] ({}, s) \<noteq> Inl Undefined" for f
  proof (rule material_loop_defined [OF _ assms(2)])
    from assms(3) show "store_prefix f names {} s"
      by (simp add: store_prefix_def store_in_order_init)
    from assms(3,4) ks show "numbered_by_first_use (length (nuclides_MG s))
           (concat (map (\<lambda>k. mat_nuclide (materials s ! k)) [0..<length (materials s)]))"
      by simp
    from assms(5) show "\<forall>k \<in> set [0..<length (materials s)]. k < length (materials s) \<and>
           (\<forall>i \<in> set (mat_nuclide (materials s ! k)).
              nat (sint i) < length names \<and> nat (sint i) < length nuc_temps)"
      by auto
  qed
  with assms(1) show ?thesis
    unfolding read_mgxs_def fatal_error_def
    by (auto split: option.splits sum.splits)
qed

text \<open>A fatal error of the loops names a nuclide of one of the materials gone through.\<close>

lemma nuclide_loop_fatal_index:
  assumes "nuclide_loop f names temps k is (ar, s) = Inl (Fatal msg s')"
  shows "\<exists>i \<in> set is. 0 \<le> sint i \<and> nat (sint i) < length names \<and>
           \<not> object_exists f (names ! nat (sint i)) \<and>
           msg = ''Data for '' @ names ! nat (sint i) @
                   '' does not exist in provided MGXS Library''"
  using assms
proof (induction "is" arbitrary: ar s)
  case Nil
  then show ?case by simp
next
  case (Cons i rest)
  from nuclide_loop_Cons_cases [of f names temps k i rest ar s] Cons.prems
  consider
    (stop) nm where "vec_at names i = Some nm" "\<not> object_exists f nm"
      "msg = ''Data for '' @ nm @ '' does not exist in provided MGXS Library''"
  | (go) ar1 s2 where "nuclide_loop f names temps k rest (ar1, s2) = Inl (Fatal msg s')"
    by auto
  then show ?case
  proof cases
    case stop
    with vec_at_Some [OF stop(1)] show ?thesis by simp
  next
    case go
    from Cons.IH [OF go] show ?thesis by auto
  qed
qed

lemma material_loop_fatal_index:
  assumes "material_loop f names temps ks (ar, s) = Inl (Fatal msg s')"
    and "\<forall>k \<in> set ks. k < length (materials s)"
  shows "\<exists>k \<in> set ks. \<exists>i \<in> set (mat_nuclide (materials s ! k)).
           0 \<le> sint i \<and> nat (sint i) < length names \<and>
           \<not> object_exists f (names ! nat (sint i)) \<and>
           msg = ''Data for '' @ names ! nat (sint i) @
                   '' does not exist in provided MGXS Library''"
  using assms
proof (induction ks arbitrary: ar s)
  case Nil
  then show ?case by simp
next
  case (Cons k ks)
  let ?inner = "nuclide_loop f names temps k (mat_nuclide (materials s ! k)) (ar, s)"
  show ?case
  proof (cases ?inner)
    case (Inl e)
    with Cons.prems(1) have "?inner = Inl (Fatal msg s')" by simp
    from nuclide_loop_fatal_index [OF this] show ?thesis by auto
  next
    case (Inr st1)
    obtain ar1 s1 where st1: "st1 = (ar1, s1)" by (cases st1)
    from Inr st1 have inner: "?inner = Inr (ar1, s1)" by simp
    with Cons.prems(1) have rest: "material_loop f names temps ks (ar1, s1) = Inl (Fatal msg s')"
      by simp
    note fr = loader_frame_materials [OF nuclide_loop_frame [OF inner]]
    from Cons.prems(2) fr(1) have ks: "\<forall>k \<in> set ks. k < length (materials s1)" by simp
    from Cons.IH [OF rest ks] Cons.prems(2) fr(2) show ?thesis by auto
  qed
qed

text \<open>
  On such a model, and a library with a group for every nuclide of the materials,
  \<open>read_mgxs\<close> returns.
\<close>

lemma read_mgxs_returns:
  assumes "filetype f = ''mgxs''" and "version f = V"
    and "build_nuclide_names s = Some names" and "distinct names"
    and "nuclides_MG s = []"
    and "numbered_by_first_use 0 (concat (map mat_nuclide (materials s)))"
    and "\<forall>i \<in> set (concat (map mat_nuclide (materials s))).
           nat (sint i) < length names \<and> nat (sint i) < length nuc_temps \<and>
           object_exists f (names ! nat (sint i))"
  shows "\<exists>s'. read_mgxs path (Some f) nuc_temps V s = Inr s'"
proof -
  let ?loop = "material_loop f names nuc_temps [0..<length (materials s)] ({}, s)"
  from assms(1-3) have rd: "read_mgxs path (Some f) nuc_temps V s =
      (case ?loop of Inl e \<Rightarrow> Inl e | Inr (already_read, s') \<Rightarrow> Inr s')"
    by (simp add: read_mgxs_def)
  from assms(7) have rng: "\<forall>i \<in> set (concat (map mat_nuclide (materials s))).
           nat (sint i) < length names \<and> nat (sint i) < length nuc_temps" by blast
  note defined = read_mgxs_defined [OF assms(3-6) rng, of path "Some f" V]
  show ?thesis
  proof (cases ?loop)
    case (Inr st)
    with rd show ?thesis by (cases st) simp
  next
    case (Inl e)
    with rd defined obtain msg s' where "?loop = Inl (Fatal msg s')" by (cases e) auto
    from material_loop_fatal_index [OF this] obtain k i where
      "k < length (materials s)" "i \<in> set (mat_nuclide (materials s ! k))"
      "\<not> object_exists f (names ! nat (sint i))" by auto
    moreover then have "i \<in> set (concat (map mat_nuclide (materials s)))" by auto
    ultimately show ?thesis using assms(7) by blast
  qed
qed

text \<open>The runs of the examples.\<close>

lemma demo_names: "build_nuclide_names demo_header = Some [''H1'', ''U235'']"
  by (simp add: demo_defs build_nuclide_names_def)

lemma demo_loaded_run:
  "read_mgxs ''mgxs.h5'' (Some demo_file) demo_temps (1, 0) demo_header = Inr demo_loaded"
  by (simp add: demo_defs run_defs)

lemma demo_unknown_names: "build_nuclide_names demo_unknown = Some [''H1'', ''O16'']"
  by (simp add: demo_defs build_nuclide_names_def)

lemma demo_unknown_run:
  "read_mgxs ''mgxs.h5'' (Some demo_file) demo_temps (1, 0) demo_unknown =
     Inl (Fatal ''Data for O16 does not exist in provided MGXS Library'' demo_unknown_failed)"
  by (simp add: demo_defs run_defs)

text \<open>
  The header read leaves the two stores alone, also when it stops with a fatal
  error, and \<open>read_mgxs\<close> stops at its checks of type and version in the state it
  was called in.
\<close>

lemma header_keeps_stores:
  "read_mg_cross_sections_header_c half f s = Inr s' \<or>
   read_mg_cross_sections_header_c half f s = Inl (Fatal msg s') \<Longrightarrow>
     nuclides_MG s' = nuclides_MG s \<and> macro_xs s' = macro_xs s"
  unfolding read_mg_cross_sections_header_c_def ensure_exists_def fatal_error_def Let_def
  by (auto split: option.splits if_splits)

lemma read_mgxs_version_mismatch:
  assumes "version f \<noteq> VERSION_MGXS_LIBRARY"
  shows "read_mgxs path_cross_sections (Some f) nuc_temps VERSION_MGXS_LIBRARY s =
           Inl (Fatal (if filetype f \<noteq> ''mgxs''
                       then ''Provided MGXS Library is not a MGXS Library file.''
                       else ''MGXS Library file version does not match current version supported by OpenMC.'') s)"
  using assms by (simp add: read_mgxs_def fatal_error_def)

lemma demo_load_run:
  "load_library (1 / 2) ''mgxs.h5'' demo_file demo_temps (2, 0) demo_globals =
     Inl (Fatal ''MGXS Library file version does not match current version supported by OpenMC.''
            demo_header)"
proof -
  have v: "version demo_file \<noteq> (2, 0)" and ty: "filetype demo_file = ''mgxs''"
    by (simp_all add: demo_file_def)
  from read_mgxs_version_mismatch [OF v, of "''mgxs.h5''" demo_temps demo_header] ty
  show ?thesis by (simp add: load_library_def demo_header_run)
qed

text \<open>
  Claim C3, as amended. When the version attribute of the library differs from the
  supported version, loading does not return. It stops with a fatal error, and at
  that point no table has been added to the nuclide store and no macroscopic table
  has been built; the only other end is the undefined behaviour of the header read
  itself. The energy group grid is not spared: when the header read returns, the
  fatal error is the one of \<open>read_mgxs\<close> for the type or the version, in the state
  the header read left, grid included.
\<close>

theorem version_mismatch_load_fails:
  assumes "version f \<noteq> VERSION_MGXS_LIBRARY"
  shows "\<exists>e. load_library half path_cross_sections f nuc_temps VERSION_MGXS_LIBRARY s = Inl e \<and>
           (case e of
              Undefined \<Rightarrow> read_mg_cross_sections_header_c half f s = Inl Undefined
            | Fatal msg s' \<Rightarrow>
                nuclides_MG s' = nuclides_MG s \<and> macro_xs s' = macro_xs s \<and>
                (\<forall>s1. read_mg_cross_sections_header_c half f s = Inr s1 \<longrightarrow>
                   s' = s1 \<and>
                   msg = (if filetype f \<noteq> ''mgxs''
                          then ''Provided MGXS Library is not a MGXS Library file.''
                          else ''MGXS Library file version does not match current version supported by OpenMC.'')))"
proof (cases "read_mg_cross_sections_header_c half f s")
  case (Inl e)
  then have load: "load_library half path_cross_sections f nuc_temps VERSION_MGXS_LIBRARY s = Inl e"
    by (simp add: load_library_def)
  show ?thesis
  proof (cases e)
    case (Fatal msg s')
    with Inl header_keeps_stores [of half f s s' msg] load show ?thesis by simp
  next
    case Undefined
    with Inl load show ?thesis by simp
  qed
next
  case (Inr s1)
  with read_mgxs_version_mismatch [OF assms, of path_cross_sections nuc_temps s1]
    header_keeps_stores [of half f s s1]
  show ?thesis by (simp add: load_library_def)
qed

theorem version_mismatch_load_fails_witness:
  "load_library (1 / 2) ''mgxs.h5'' demo_file demo_temps (2, 0) demo_globals =
     Inl (Fatal ''MGXS Library file version does not match current version supported by OpenMC.''
            demo_header) \<and>
   nuclides_MG demo_header = nuclides_MG demo_globals \<and>
   macro_xs demo_header = macro_xs demo_globals"
proof -
  have "version demo_file \<noteq> (2, 0)" by (simp add: demo_defs)
  from version_mismatch_load_fails [OF this, of "1 / 2" "''mgxs.h5''" demo_temps demo_globals]
    demo_load_run
  show ?thesis by simp
qed

text \<open>
  Claim C3 as it was stated fails. The library below has version \<open>(1, 0)\<close> where
  \<open>(2, 0)\<close> is supported, and the grid is empty before loading; loading stops with
  the fatal error for the version, and at that point the grid holds the boundaries
  and the averages read from the rejected file.
\<close>

theorem version_mismatch_grid_populated:
  "version demo_file \<noteq> (2, 0) \<and> energy_bins demo_globals = [] \<and>
   energy_bin_avg demo_globals = [] \<and>
   load_library (1 / 2) ''mgxs.h5'' demo_file demo_temps (2, 0) demo_globals =
     Inl (Fatal ''MGXS Library file version does not match current version supported by OpenMC.''
            demo_header) \<and>
   energy_bins demo_header = [0, 1, 20] \<and> energy_bin_avg demo_header = [1 / 2, 21 / 2]"
  using demo_load_run by (simp add: demo_defs)

text \<open>
  Claim C2. When \<open>read_mgxs\<close> returns, the store is the store it started with
  followed by the tables of this load, and for every nuclide index in the list of a
  material exactly one of these tables carries the name of that nuclide, however
  many materials refer to it.
\<close>

theorem nuclide_instantiated_once:
  assumes "read_mgxs path file nuc_temps V s = Inr s'"
    and "build_nuclide_names s = Some names"
    and "m \<in> set (materials s)" and "i \<in> set (mat_nuclide m)"
  shows "\<exists>new. nuclides_MG s' = nuclides_MG s @ new \<and>
           length (filter (\<lambda>t. name t = names ! nat (sint i)) new) = 1"
proof -
  from read_mgxs_Inr [OF assms(1)] assms(2) obtain f ar' where
    loop: "material_loop f names nuc_temps [0..<length (materials s)] ({}, s) = Inr (ar', s')"
    by auto
  from assms(3) obtain k where k: "k < length (materials s)" "materials s ! k = m"
    by (auto simp: in_set_conv_nth)
  from material_loop_seen [OF loop] k assms(4)
  have seen: "names ! nat (sint i) \<in> ar'" by auto
  from material_loop_loaded_once [OF loop] obtain new where
    new: "nuclides_MG s' = nuclides_MG s @ new" "distinct (map name new)"
      "set (map name new) = ar'"
    unfolding loaded_once_def by blast
  from new(2,3) seen have "length (filter (\<lambda>t. name t = names ! nat (sint i)) new) = 1"
    by (intro count_distinct_member) simp_all
  with new(1) show ?thesis by blast
qed

theorem nuclide_instantiated_once_witness:
  "read_mgxs ''mgxs.h5'' (Some demo_file) demo_temps (1, 0) demo_header = Inr demo_loaded \<and>
   length (filter (\<lambda>t. name t = ''H1'') (nuclides_MG demo_loaded)) = 1"
proof -
  have m: "\<lparr>mat_nuclide = [1, 0], mat_fissionable = False\<rparr> \<in> set (materials demo_header)"
    and i: "0 \<in> set (mat_nuclide \<lparr>mat_nuclide = [1, 0 :: c_int], mat_fissionable = False\<rparr>)"
    by (simp_all add: demo_defs)
  from nuclide_instantiated_once [OF demo_loaded_run demo_names m i] demo_loaded_run
  show ?thesis by (simp add: demo_defs)
qed

text \<open>
  Claim C1. When \<open>read_mgxs\<close> returns, started on an empty store, the flag of every
  material is the flag it had before or the fact that one of the tables
  \<open>nuclides_MG[i_nuc]\<close> of its nuclide indices is fissionable: a fissionable
  constituent sets the flag, and without one the loader leaves the flag as it was, so
  a material that was not flagged stays unflagged. The table at index \<open>i_nuc\<close> is the
  one instantiated for the nuclide of that index: it carries its name and the
  fissionable flag of its group in the library.
\<close>

theorem material_flag_follows_nuclides:
  assumes "read_mgxs path (Some f) nuc_temps V s = Inr s'"
    and "build_nuclide_names s = Some names"
    and "nuclides_MG s = []"
    and "k < length (materials s)"
  shows "mat_fissionable (materials s' ! k) =
           (mat_fissionable (materials s ! k) \<or>
            (\<exists>i \<in> set (mat_nuclide (materials s ! k)).
                fissionable (nuclides_MG s' ! nat (sint i)))) \<and>
         (\<forall>i \<in> set (mat_nuclide (materials s ! k)).
            name (nuclides_MG s' ! nat (sint i)) = names ! nat (sint i) \<and>
            fissionable (nuclides_MG s' ! nat (sint i)) =
              nuclide_fissionable f (names ! nat (sint i)))"
proof -
  from read_mgxs_Inr [OF assms(1)] assms(2) obtain ar' where
    loop: "material_loop f names nuc_temps [0..<length (materials s)] ({}, s) = Inr (ar', s')"
    by auto
  from material_loop_flags [OF loop store_in_order_init [OF assms(3)] assms(4)] assms(4)
  have ord: "store_in_order f names ar' s'"
    and flag: "mat_fissionable (materials s' ! k) =
           (mat_fissionable (materials s ! k) \<or>
            (\<exists>i \<in> set (mat_nuclide (materials s ! k)).
                nuclide_fissionable f (names ! nat (sint i))))"
    by simp_all
  have tab: "name (nuclides_MG s' ! nat (sint i)) = names ! nat (sint i) \<and>
            fissionable (nuclides_MG s' ! nat (sint i)) =
              nuclide_fissionable f (names ! nat (sint i))"
    if "i \<in> set (mat_nuclide (materials s ! k))" for i
  proof -
    from material_loop_seen [OF loop] assms(4) that
    have "nat (sint i) < length (nuclides_MG s')" by auto
    with ord store_in_order_fissionable [OF ord this] show ?thesis
      unfolding store_in_order_def by fastforce
  qed
  with flag show ?thesis by auto
qed

theorem material_flag_follows_nuclides_witness:
  "read_mgxs ''mgxs.h5'' (Some demo_file) demo_temps (1, 0) demo_header = Inr demo_loaded \<and>
   mat_fissionable (materials demo_loaded ! 1) \<and>
   fissionable (nuclides_MG demo_loaded ! 1) \<and>
   name (nuclides_MG demo_loaded ! 1) = ''U235'' \<and>
   \<not> mat_fissionable (materials demo_loaded ! 0)"
proof -
  have e: "nuclides_MG demo_header = []" and k: "1 < length (materials demo_header)"
    "0 < length (materials demo_header)"
    by (simp_all add: demo_defs)
  from material_flag_follows_nuclides [OF demo_loaded_run demo_names e k(1)]
    material_flag_follows_nuclides [OF demo_loaded_run demo_names e k(2)]
    demo_loaded_run
  show ?thesis by (simp add: demo_defs nuclide_fissionable_def open_group_def)
qed

text \<open>
  A material that refers to a name without a group in the library keeps the loader
  from returning: a run that does not leave defined behaviour stops in
  \<open>add_mgxs_c\<close>, at a nuclide of a material.
\<close>

lemma missing_nuclide_fatal_if_defined:
  assumes "filetype f = ''mgxs''" and "version f = V"
    and "build_nuclide_names s = Some names"
    and "m \<in> set (materials s)" and "i \<in> set (mat_nuclide m)"
    and "\<not> object_exists f (names ! nat (sint i))"
    and "read_mgxs path (Some f) nuc_temps V s \<noteq> Inl Undefined"
  shows "\<exists>nm s'. read_mgxs path (Some f) nuc_temps V s =
             Inl (Fatal (''Data for '' @ nm @ '' does not exist in provided MGXS Library'') s') \<and>
           \<not> object_exists f nm \<and>
           (\<exists>m \<in> set (materials s). \<exists>i \<in> set (mat_nuclide m). nm = names ! nat (sint i)) \<and>
           macro_xs s' = macro_xs s \<and>
           (\<exists>new. nuclides_MG s' = nuclides_MG s @ new \<and> nm \<notin> set (map name new))"
proof -
  let ?loop = "material_loop f names nuc_temps [0..<length (materials s)] ({}, s)"
  from assms(1-3) have rd: "read_mgxs path (Some f) nuc_temps V s =
      (case ?loop of Inl e \<Rightarrow> Inl e | Inr (already_read, s') \<Rightarrow> Inr s')"
    by (simp add: read_mgxs_def)
  from assms(4) obtain k where k: "k < length (materials s)" "materials s ! k = m"
    by (auto simp: in_set_conv_nth)
  show ?thesis
  proof (cases ?loop)
    case (Inr st)
    obtain ar' s' where st: "st = (ar', s')" by (cases st)
    from Inr st have loop: "?loop = Inr (ar', s')" by simp
    from material_loop_seen [OF loop] k assms(5)
    have "names ! nat (sint i) \<in> ar'" by auto
    with material_loop_exists [OF loop] assms(6) show ?thesis by blast
  next
    case (Inl e)
    with rd assms(7) obtain msg s' where e: "e = Fatal msg s'" by (cases e) auto
    let ?P = "\<lambda>ar s1. loaded_once f (nuclides_MG s) ar s1 \<and> loader_frame s s1"
    from Inl e have "?loop = Inl (Fatal msg s')" by simp
    then have "\<exists>ar1 nm. ?P ar1 s' \<and> nm \<notin> ar1 \<and> \<not> object_exists f nm \<and>
           msg = ''Data for '' @ nm @ '' does not exist in provided MGXS Library''"
      by (rule material_loop_fatal [where P = ?P])
        (simp_all add: loaded_once_init loader_frame_refl loaded_once_add loader_frame_add
          loaded_once_flag loader_frame_flag)
    then obtain ar1 nm where *: "loaded_once f (nuclides_MG s) ar1 s'" "loader_frame s s'"
      "nm \<notin> ar1" "\<not> object_exists f nm"
      "msg = ''Data for '' @ nm @ '' does not exist in provided MGXS Library''" by blast
    from *(1,3) have "\<exists>new. nuclides_MG s' = nuclides_MG s @ new \<and> nm \<notin> set (map name new)"
      unfolding loaded_once_def by auto
    moreover from material_loop_fatal_index [OF \<open>?loop = Inl (Fatal msg s')\<close>] *(5)
    obtain k' i' where "k' < length (materials s)" "i' \<in> set (mat_nuclide (materials s ! k'))"
      "nm = names ! nat (sint i')" by auto
    then have "\<exists>m \<in> set (materials s). \<exists>i \<in> set (mat_nuclide m). nm = names ! nat (sint i)"
      by (metis nth_mem)
    ultimately show ?thesis using * rd Inl e by (auto simp: loader_frame_def)
  qed
qed

text \<open>
  Claim C4. The library has the right type and version, and the model is one the
  loader can run on (distinct names, indices numbered by first use and in range, an
  empty store). When a material refers to a nuclide name without a group in the
  library, \<open>read_mgxs\<close> stops with the fatal error of \<open>add_mgxs_c\<close> for the name
  of a nuclide of a material that has no group; at that point no table with that
  name has been appended to the store, and the macroscopic tables are what they were
  before loading: none has been built.
\<close>

theorem missing_nuclide_is_fatal:
  assumes "filetype f = ''mgxs''" and "version f = V"
    and "build_nuclide_names s = Some names" and "distinct names"
    and "nuclides_MG s = []"
    and "numbered_by_first_use 0 (concat (map mat_nuclide (materials s)))"
    and "\<forall>i \<in> set (concat (map mat_nuclide (materials s))).
           nat (sint i) < length names \<and> nat (sint i) < length nuc_temps"
    and "m \<in> set (materials s)" and "i \<in> set (mat_nuclide m)"
    and "\<not> object_exists f (names ! nat (sint i))"
  shows "\<exists>nm s'. read_mgxs path (Some f) nuc_temps V s =
             Inl (Fatal (''Data for '' @ nm @ '' does not exist in provided MGXS Library'') s') \<and>
           \<not> object_exists f nm \<and>
           (\<exists>m \<in> set (materials s). \<exists>i \<in> set (mat_nuclide m). nm = names ! nat (sint i)) \<and>
           macro_xs s' = macro_xs s \<and>
           (\<exists>new. nuclides_MG s' = nuclides_MG s @ new \<and> nm \<notin> set (map name new))"
  using assms(1-3,8-10) read_mgxs_defined [OF assms(3-7)]
  by (rule missing_nuclide_fatal_if_defined)

theorem missing_nuclide_is_fatal_witness:
  "read_mgxs ''mgxs.h5'' (Some demo_file) demo_temps (1, 0) demo_unknown =
     Inl (Fatal ''Data for O16 does not exist in provided MGXS Library'' demo_unknown_failed) \<and>
   \<not> object_exists demo_file ''O16'' \<and>
   ''O16'' = [''H1'', ''O16''] ! nat (sint (1 :: c_int)) \<and>
   macro_xs demo_unknown_failed = macro_xs demo_unknown \<and>
   ''O16'' \<notin> set (map name (nuclides_MG demo_unknown_failed))"
proof -
  have "filetype demo_file = ''mgxs''" "version demo_file = (1, 0)"
    "build_nuclide_names demo_unknown = Some [''H1'', ''O16'']"
    "distinct [''H1'', ''O16'']" "nuclides_MG demo_unknown = []"
    "numbered_by_first_use 0 (concat (map mat_nuclide (materials demo_unknown)))"
    "\<forall>i \<in> set (concat (map mat_nuclide (materials demo_unknown))).
           nat (sint i) < length [''H1'', ''O16''] \<and> nat (sint i) < length demo_temps"
    "\<lparr>mat_nuclide = [0, 1], mat_fissionable = False\<rparr> \<in> set (materials demo_unknown)"
    "1 \<in> set (mat_nuclide \<lparr>mat_nuclide = [0, 1 :: c_int], mat_fissionable = False\<rparr>)"
    "\<not> object_exists demo_file ([''H1'', ''O16''] ! nat (sint (1 :: c_int)))"
    by (simp_all add: demo_defs build_nuclide_names_def object_exists_def)
  from missing_nuclide_is_fatal [OF this, of "''mgxs.h5''"] demo_unknown_run
  show ?thesis by (simp add: demo_defs object_exists_def)
qed

section \<open>Properties of the macroscopic tables\<close>

lemma create_macro_xs_c_blank:
  "sint n_temps \<le> 0 \<Longrightarrow>
     create_macro_xs_c mat_name n_nuclides i_nuclides n_temps temps dens tolerance method s =
       Inr (s\<lparr>macro_xs := macro_xs s @ [Mgxs_blank]\<rparr>)"
  by (simp add: create_macro_xs_c_def)

lemma create_macro_xs_c_Inr:
  assumes "create_macro_xs_c mat_name n_nuclides i_nuclides n_temps temps dens tolerance method s =
       Inr s'"
  shows "\<exists>t. s' = s\<lparr>macro_xs := macro_xs s @ [t]\<rparr> \<and>
           (if 0 < sint n_temps
            then name t = mat_name \<and> kTs t = take (nat (sint n_temps)) temps
            else t = Mgxs_blank)"
  using assms
  by (auto simp: create_macro_xs_c_def Mgxs_macro_def array_prefix_def
      split: if_splits option.splits)

lemma create_macro_xs_all_Inr:
  "create_macro_xs_all args s = Inr s' \<Longrightarrow>
     \<exists>ts. s' = s\<lparr>macro_xs := macro_xs s @ ts\<rparr> \<and> list_all2 macro_entry_ok args ts"
proof (induction args arbitrary: s)
  case Nil
  then show ?case by simp
next
  case (Cons a args)
  from Cons.prems obtain s1 where
    one: "create_macro_xs_c (arg_mat_name a) (arg_n_nuclides a) (arg_i_nuclides a)
             (arg_n_temps a) (arg_temps a) (arg_atom_densities a) (arg_tolerance a)
             (arg_method a) s = Inr s1"
    and rest: "create_macro_xs_all args s1 = Inr s'"
    by (auto split: sum.splits)
  from create_macro_xs_c_Inr [OF one] obtain t where
    t: "s1 = s\<lparr>macro_xs := macro_xs s @ [t]\<rparr>" "macro_entry_ok a t"
    by (auto simp: macro_entry_ok_def)
  from Cons.IH [OF rest] obtain ts where
    ts: "s' = s1\<lparr>macro_xs := macro_xs s1 @ ts\<rparr>" "list_all2 macro_entry_ok args ts"
    by auto
  from t ts have "s' = s\<lparr>macro_xs := macro_xs s @ (t # ts)\<rparr>" by simp
  moreover from t ts have "list_all2 macro_entry_ok (a # args) (t # ts)" by simp
  ultimately show ?case by blast
qed

lemma demo_macro_run: "create_macro_xs_all demo_macro_args demo_loaded = Inr demo_macro"
  by (simp add: demo_defs demo_macro_args_def demo_macro_def create_macro_xs_c_def
      array_prefix_def int_minus_1_def Mgxs_macro_def Mgxs_from_hdf5_def)

text \<open>
  Claim C9. A call of \<open>create_macro_xs_c\<close> without temperatures returns and appends
  the blank placeholder; every call that returns appends exactly one table; and when
  the calls for a list of materials, made in order, return, the store has one more
  table per material and the table of the material at position \<open>k\<close> stands at
  position \<open>k\<close> after the tables that were there before (at position \<open>k\<close> when the
  store was empty): the placeholder when the material has no temperature, and else
  the table with its label and temperatures.
\<close>

theorem macro_tables_follow_materials:
  "(sint n_temps \<le> 0 \<longrightarrow>
      create_macro_xs_c mat_name n_nuclides i_nuclides n_temps temps dens tolerance method s0 =
        Inr (s0\<lparr>macro_xs := macro_xs s0 @ [Mgxs_blank]\<rparr>)) \<and>
   (create_macro_xs_c mat_name n_nuclides i_nuclides n_temps temps dens tolerance method s0 =
        Inr s1 \<longrightarrow>
      (\<exists>t. s1 = s0\<lparr>macro_xs := macro_xs s0 @ [t]\<rparr>)) \<and>
   (create_macro_xs_all args s = Inr s' \<and> k < length args \<longrightarrow>
      length (macro_xs s') = length (macro_xs s) + length args \<and>
      take (length (macro_xs s)) (macro_xs s') = macro_xs s \<and>
      macro_entry_ok (args ! k) (macro_xs s' ! (length (macro_xs s) + k)))"
proof (intro conjI impI)
  assume "sint n_temps \<le> 0"
  then show "create_macro_xs_c mat_name n_nuclides i_nuclides n_temps temps dens tolerance
      method s0 = Inr (s0\<lparr>macro_xs := macro_xs s0 @ [Mgxs_blank]\<rparr>)"
    by (rule create_macro_xs_c_blank)
next
  assume "create_macro_xs_c mat_name n_nuclides i_nuclides n_temps temps dens tolerance
      method s0 = Inr s1"
  from create_macro_xs_c_Inr [OF this] show "\<exists>t. s1 = s0\<lparr>macro_xs := macro_xs s0 @ [t]\<rparr>"
    by blast
next
  assume a: "create_macro_xs_all args s = Inr s' \<and> k < length args"
  with create_macro_xs_all_Inr [of args s s'] obtain ts where
    ts: "s' = s\<lparr>macro_xs := macro_xs s @ ts\<rparr>" "list_all2 macro_entry_ok args ts"
    by auto
  with a have "length ts = length args" "macro_entry_ok (args ! k) (ts ! k)"
    by (auto simp: list_all2_conv_all_nth)
  with ts(1) show "length (macro_xs s') = length (macro_xs s) + length args"
    "take (length (macro_xs s)) (macro_xs s') = macro_xs s"
    "macro_entry_ok (args ! k) (macro_xs s' ! (length (macro_xs s) + k))"
    by simp_all
qed

theorem macro_tables_follow_materials_witness:
  "create_macro_xs_all demo_macro_args demo_loaded = Inr demo_macro \<and>
   length (macro_xs demo_macro) = length demo_macro_args \<and>
   macro_xs demo_macro ! 1 = Mgxs_blank \<and>
   name (macro_xs demo_macro ! 2) = arg_mat_name (demo_macro_args ! 2)"
proof -
  have k: "1 < length demo_macro_args" "2 < length demo_macro_args"
    and e: "macro_xs demo_loaded = []" "sint (arg_n_temps (demo_macro_args ! 1)) = 0"
      "0 < sint (arg_n_temps (demo_macro_args ! 2))"
    by (simp_all add: demo_defs demo_macro_args_def)
  from macro_tables_follow_materials [of 0 "''void''" 0 "[]" "[]" "[]" 10 1 demo_loaded
      demo_macro demo_macro_args demo_loaded demo_macro 1]
    macro_tables_follow_materials [of 0 "''void''" 0 "[]" "[]" "[]" 10 1 demo_loaded
      demo_macro demo_macro_args demo_loaded demo_macro 2]
    k e demo_macro_run
  show ?thesis by (simp add: macro_entry_ok_def numeral_2_eq_2)
qed

section \<open>Properties of the lookups\<close>

lemma get_nuclide_xs_c_value:
  assumes "get_nuclide_xs_c (Mgxs_get_xs xsValue) s mem index xstype gin gout mu dg = Some (r, mem')"
  shows "\<exists>groupOut delayedGroup.
           pointee mem gout = Some groupOut \<and> pointee mem dg = Some delayedGroup \<and>
           1 \<le> sint index \<and> nat (sint index - 1) < length (nuclides_MG s) \<and>
           r = xsValue (nuclides_MG s ! nat (sint index - 1)) (sint xstype) (sint gin - 1)
                 (map_option (\<lambda>v. v - 1) groupOut) mu (map_option (\<lambda>v. v - 1) delayedGroup)"
  using assms
  unfolding get_nuclide_xs_c_def Mgxs_get_xs_def Let_def
  by (auto simp: pointee_def deref_def nth_append split: option.splits if_splits
      dest!: int_minus_1_Some vec_at_Some)

lemma get_macro_xs_c_value:
  assumes "get_macro_xs_c (Mgxs_get_xs xsValue) s mem index xstype gin gout mu dg = Some (r, mem')"
  shows "\<exists>groupOut delayedGroup.
           pointee mem gout = Some groupOut \<and> pointee mem dg = Some delayedGroup \<and>
           1 \<le> sint index \<and> nat (sint index - 1) < length (macro_xs s) \<and>
           r = xsValue (macro_xs s ! nat (sint index - 1)) (sint xstype) (sint gin - 1)
                 (map_option (\<lambda>v. v - 1) groupOut) mu (map_option (\<lambda>v. v - 1) delayedGroup)"
  using assms
  unfolding get_macro_xs_c_def Mgxs_get_xs_def Let_def
  by (auto simp: pointee_def deref_def nth_append split: option.splits if_splits
      dest!: int_minus_1_Some vec_at_Some)

lemma callee_frame:
  assumes w: "writes_through_arguments get_xs"
    and call: "get_xs t xstype gin gp mu dp m = Some (r, m3)"
    and m: "length m = length mem + 2" "\<forall>a < length mem. m ! a = mem ! a"
    and gp: "gp = None \<or> gp = Some (length mem)"
    and dp: "dp = None \<or> dp = Some (length mem + 1)"
  shows "take (length mem) m3 = mem"
proof (rule nth_equalityI)
  from w call have len: "length m3 = length m"
    and same: "\<And>a. a < length m \<Longrightarrow> gp \<noteq> Some a \<Longrightarrow> dp \<noteq> Some a \<Longrightarrow> m3 ! a = m ! a"
    unfolding writes_through_arguments_def by blast+
  from len m(1) show "length (take (length mem) m3) = length mem" by simp
  fix a assume "a < length (take (length mem) m3)"
  then have a: "a < length mem" by simp
  with gp dp have "gp \<noteq> Some a" "dp \<noteq> Some a" by auto
  with same [of a] a m show "take (length mem) m3 ! a = mem ! a" by simp
qed

lemma get_nuclide_xs_c_frame:
  assumes "writes_through_arguments get_xs"
    and "get_nuclide_xs_c get_xs s mem index xstype gin gout mu dg = Some (r, mem')"
  shows "mem' = mem"
  using assms(2)
  unfolding get_nuclide_xs_c_def Let_def
  by (auto simp: nth_append nth_list_update split: option.splits
      dest!: callee_frame [OF assms(1), where mem = mem])

lemma get_macro_xs_c_frame:
  assumes "writes_through_arguments get_xs"
    and "get_macro_xs_c get_xs s mem index xstype gin gout mu dg = Some (r, mem')"
  shows "mem' = mem"
  using assms(2)
  unfolding get_macro_xs_c_def Let_def
  by (auto simp: nth_append nth_list_update split: option.splits
      dest!: callee_frame [OF assms(1), where mem = mem])

lemma demo_nuclide_lookup:
  "get_nuclide_xs_c (Mgxs_get_xs demo_xsValue) demo_macro demo_mem 2 7 1 (Some 0) () None =
     Some ((''U235'', 7, 0, Some 1, None), demo_mem)"
  by (simp add: lookup_defs demo_defs demo_macro_def)

lemma demo_macro_lookup:
  "get_macro_xs_c (Mgxs_get_xs demo_xsValue) demo_macro demo_mem 3 7 2 (Some 0) () (Some 2) =
     Some ((''fuel'', 7, 1, Some 1, Some 0), demo_mem)"
  by (simp add: lookup_defs demo_defs demo_macro_def)

lemma demo_get_xs_writes: "writes_through_arguments demo_get_xs"
  unfolding writes_through_arguments_def demo_get_xs_def
  by (auto split: option.splits simp: nth_list_update)

lemma demo_nuclide_overwrite:
  "get_nuclide_xs_c demo_get_xs demo_macro demo_mem 1 7 1 (Some 0) () (Some 2) =
     Some (''H1'', demo_mem)"
  by (simp add: lookup_defs demo_get_xs_def demo_defs demo_macro_def)

lemma demo_macro_overwrite:
  "get_macro_xs_c demo_get_xs demo_macro demo_mem 1 7 1 (Some 0) () (Some 2) =
     Some (''water'', demo_mem)"
  by (simp add: lookup_defs demo_get_xs_def demo_defs demo_macro_def)

text \<open>
  Claim C8. \<open>get_nuclide_xs_c\<close> and \<open>get_macro_xs_c\<close> hand the lookup of the table
  the table at the handle minus one, the incoming group minus one, and for the
  outgoing and the delayed group the value behind the pointer minus one, or nothing
  when the pointer is null: whenever a call returns, with the lookup \<open>xsValue\<close> of
  the tables read through \<open>Mgxs_get_xs\<close>, its value is the value of \<open>xsValue\<close> on
  these arguments.
\<close>

theorem xs_lookups_translate_indices:
  "(get_nuclide_xs_c (Mgxs_get_xs xsValue) s mem index xstype gin gout mu dg = Some (r, mem') \<longrightarrow>
      (\<exists>groupOut delayedGroup.
         pointee mem gout = Some groupOut \<and> pointee mem dg = Some delayedGroup \<and>
         1 \<le> sint index \<and> nat (sint index - 1) < length (nuclides_MG s) \<and>
         r = xsValue (nuclides_MG s ! nat (sint index - 1)) (sint xstype) (sint gin - 1)
               (map_option (\<lambda>v. v - 1) groupOut) mu (map_option (\<lambda>v. v - 1) delayedGroup))) \<and>
   (get_macro_xs_c (Mgxs_get_xs xsValue) s mem index xstype gin gout mu dg = Some (r, mem') \<longrightarrow>
      (\<exists>groupOut delayedGroup.
         pointee mem gout = Some groupOut \<and> pointee mem dg = Some delayedGroup \<and>
         1 \<le> sint index \<and> nat (sint index - 1) < length (macro_xs s) \<and>
         r = xsValue (macro_xs s ! nat (sint index - 1)) (sint xstype) (sint gin - 1)
               (map_option (\<lambda>v. v - 1) groupOut) mu (map_option (\<lambda>v. v - 1) delayedGroup)))"
  using get_nuclide_xs_c_value [of xsValue s mem index xstype gin gout mu dg r mem']
    get_macro_xs_c_value [of xsValue s mem index xstype gin gout mu dg r mem']
  by blast

theorem xs_lookups_translate_indices_witness:
  "get_nuclide_xs_c (Mgxs_get_xs demo_xsValue) demo_macro demo_mem 2 7 1 (Some 0) () None =
     Some ((''U235'', 7, 0, Some 1, None), demo_mem) \<and>
   get_macro_xs_c (Mgxs_get_xs demo_xsValue) demo_macro demo_mem 3 7 2 (Some 0) () (Some 2) =
     Some ((''fuel'', 7, 1, Some 1, Some 0), demo_mem) \<and>
   (''U235'', 7, 0, Some 1, None) =
     demo_xsValue (nuclides_MG demo_macro ! nat (sint (2 :: c_int) - 1)) (sint (7 :: c_int))
       (sint (1 :: c_int) - 1) (map_option (\<lambda>v. v - 1) (Some 2)) () (map_option (\<lambda>v. v - 1) None)"
  using xs_lookups_translate_indices [of demo_xsValue demo_macro demo_mem 2 7 1 "Some 0" "()" None
      "(''U235'', 7, 0, Some 1, None)" demo_mem]
    demo_nuclide_lookup demo_macro_lookup
  by (auto simp: pointee_def deref_def demo_mem_def)

text \<open>
  Claim C10. A call of \<open>get_nuclide_xs_c\<close> or \<open>get_macro_xs_c\<close> that returns leaves
  the memory of its caller as it was, and with it the integers behind \<open>gout\<close> and
  \<open>dg\<close>: the decremented values are written to the two local cells, and a callee
  that writes through the pointers it is given writes to these.
\<close>

theorem xs_lookups_keep_caller_memory:
  assumes "writes_through_arguments get_xs"
  shows "(get_nuclide_xs_c get_xs s mem index xstype gin gout mu dg = Some (r, mem') \<longrightarrow>
            mem' = mem \<and> pointee mem' gout = pointee mem gout \<and>
            pointee mem' dg = pointee mem dg) \<and>
         (get_macro_xs_c get_xs s mem index xstype gin gout mu dg = Some (r, mem') \<longrightarrow>
            mem' = mem \<and> pointee mem' gout = pointee mem gout \<and>
            pointee mem' dg = pointee mem dg)"
  using get_nuclide_xs_c_frame [OF assms, of s mem index xstype gin gout mu dg r mem']
    get_macro_xs_c_frame [OF assms, of s mem index xstype gin gout mu dg r mem']
  by blast

theorem xs_lookups_keep_caller_memory_witness:
  "writes_through_arguments demo_get_xs \<and>
   get_nuclide_xs_c demo_get_xs demo_macro demo_mem 1 7 1 (Some 0) () (Some 2) =
     Some (''H1'', demo_mem) \<and>
   get_macro_xs_c demo_get_xs demo_macro demo_mem 1 7 1 (Some 0) () (Some 2) =
     Some (''water'', demo_mem) \<and>
   pointee demo_mem (Some 0) = Some (Some 2) \<and> pointee demo_mem (Some 2) = Some (Some 1)"
  using xs_lookups_keep_caller_memory [OF demo_get_xs_writes, of demo_macro demo_mem 1 7 1
      "Some 0" "()" "Some 2" "''H1''" demo_mem]
    demo_get_xs_writes demo_nuclide_overwrite demo_macro_overwrite
  by (simp add: pointee_def deref_def demo_mem_def)

end
